theory Spec2Isabelle
  imports Complex_Main
begin

section \<open>JavaScript values used by the query helper\<close>

subsection \<open>Numbers\<close>

text \<open>
  A JavaScript Number is an IEEE 754 double: NaN, one of the two infinities, or a
  finite value, which is kept as the rational it denotes. Every arithmetic operation
  computes the exact result and rounds it to the nearest double, ties to the even
  significand, as the hardware does. The two zeros are one value: both are falsy, and
  where the sign of a zero would show, in a division by zero, it is read as positive.
\<close>

datatype jsnum = NaN | PInf | NInf | Fin rat

text \<open>
  Rounding. \<open>floor_log2 x\<close> is the exponent \<open>k\<close> with \<open>2^k \<le> x < 2^(k+1)\<close>, found from
  the bit lengths of numerator and denominator. A double is \<open>m * 2^e\<close> with a significand
  \<open>m\<close> of at most 53 bits and an exponent \<open>e\<close> from -1074 to 971; a result that rounds to
  \<open>2^1024\<close> or more (a significand of \<open>2^53\<close> at the exponent 971, or any larger exponent)
  is an infinity.
\<close>

function bit_length :: "int \<Rightarrow> int" where
  "bit_length n = (if n \<le> 0 then 0 else 1 + bit_length (n div 2))"
  by pat_completeness auto
termination by (relation "measure nat") auto

definition floor_log2 :: "rat \<Rightarrow> int" where
  "floor_log2 x =
     (let (n, d) = quotient_of x;
          k = bit_length n - bit_length d
      in if 2 powi k \<le> x then k else k - 1)"

definition round_half_even :: "rat \<Rightarrow> int" where
  "round_half_even q =
     (let f = \<lfloor>q\<rfloor>; r = q - of_int f
      in if r < 1 / 2 then f
         else if 1 / 2 < r then f + 1
         else if even f then f else f + 1)"

definition to_double :: "rat \<Rightarrow> jsnum" where
  "to_double x =
     (if x = 0 then Fin 0
      else
        let a = \<bar>x\<bar>;
            e = max (floor_log2 a - 52) (- 1074);
            m = round_half_even (a / 2 powi e);
            v = of_int m * 2 powi e
        in if 971 < e \<or> (e = 971 \<and> m = 2 ^ 53) then (if 0 < x then PInf else NInf)
           else Fin (if 0 < x then v else - v))"

text \<open>A count that the store returns, as a Number.\<close>

definition js_of_nat :: "nat \<Rightarrow> jsnum" where
  "js_of_nat n = to_double (of_nat n)"

fun js_neg :: "jsnum \<Rightarrow> jsnum" where
  "js_neg NaN = NaN"
| "js_neg PInf = NInf"
| "js_neg NInf = PInf"
| "js_neg (Fin a) = Fin (- a)"

fun js_add :: "jsnum \<Rightarrow> jsnum \<Rightarrow> jsnum" where
  "js_add (Fin a) (Fin b) = to_double (a + b)"
| "js_add NaN _ = NaN"
| "js_add _ NaN = NaN"
| "js_add PInf NInf = NaN"
| "js_add NInf PInf = NaN"
| "js_add PInf _ = PInf"
| "js_add NInf _ = NInf"
| "js_add _ PInf = PInf"
| "js_add _ NInf = NInf"

definition js_sub :: "jsnum \<Rightarrow> jsnum \<Rightarrow> jsnum" where
  "js_sub a b = js_add a (js_neg b)"

text \<open>The sign of a number: \<open>None\<close> for NaN, otherwise -1, 0 or 1.\<close>

fun js_sign :: "jsnum \<Rightarrow> int option" where
  "js_sign NaN = None"
| "js_sign PInf = Some 1"
| "js_sign NInf = Some (- 1)"
| "js_sign (Fin a) = Some (if 0 < a then 1 else if a < 0 then - 1 else 0)"

definition js_of_sign :: "int \<Rightarrow> jsnum" where
  "js_of_sign s = (if 0 < s then PInf else if s < 0 then NInf else NaN)"

fun js_mul :: "jsnum \<Rightarrow> jsnum \<Rightarrow> jsnum" where
  "js_mul (Fin a) (Fin b) = to_double (a * b)"
| "js_mul a b =
     (case (js_sign a, js_sign b) of
        (Some s, Some t) \<Rightarrow> js_of_sign (s * t)
      | _ \<Rightarrow> NaN)"

fun js_div :: "jsnum \<Rightarrow> jsnum \<Rightarrow> jsnum" where
  "js_div NaN _ = NaN"
| "js_div _ NaN = NaN"
| "js_div (Fin a) (Fin b) =
     (if b = 0 then js_of_sign (case js_sign (Fin a) of Some s \<Rightarrow> s | None \<Rightarrow> 0)
      else to_double (a / b))"
| "js_div (Fin a) _ = Fin 0"
| "js_div PInf (Fin b) = (if b < 0 then NInf else PInf)"
| "js_div NInf (Fin b) = (if b < 0 then PInf else NInf)"
| "js_div _ _ = NaN"

fun js_ceil :: "jsnum \<Rightarrow> jsnum" where
  "js_ceil (Fin a) = Fin (of_int \<lceil>a\<rceil>)"
| "js_ceil x = x"

fun js_lt :: "jsnum \<Rightarrow> jsnum \<Rightarrow> bool" where
  "js_lt NaN _ = False"
| "js_lt _ NaN = False"
| "js_lt (Fin a) (Fin b) = (a < b)"
| "js_lt NInf NInf = False"
| "js_lt NInf _ = True"
| "js_lt PInf _ = False"
| "js_lt (Fin a) PInf = True"
| "js_lt (Fin a) NInf = False"

definition js_gt :: "jsnum \<Rightarrow> jsnum \<Rightarrow> bool" where
  "js_gt a b = js_lt b a"

definition js_ge :: "jsnum \<Rightarrow> jsnum \<Rightarrow> bool" where
  "js_ge a b = (a \<noteq> NaN \<and> b \<noteq> NaN \<and> \<not> js_lt a b)"

text \<open>Truthiness of a number, and \<open>a || b\<close> on numbers: NaN and zero are falsy.\<close>

definition truthy_num :: "jsnum \<Rightarrow> bool" where
  "truthy_num a = (a \<noteq> NaN \<and> a \<noteq> Fin 0)"

definition js_or :: "jsnum \<Rightarrow> jsnum \<Rightarrow> jsnum" where
  "js_or a b = (if truthy_num a then a else b)"

subsection \<open>Strings and their conversion to numbers\<close>

text \<open>
  Strings are lists of 8-bit characters (the Latin-1 range of JavaScript's code units).
  \<open>js_trim\<close> is \<open>String.prototype.trim\<close>: it strips white space and line terminators,
  which in this range are the codes 9 to 13, 32 and 160.
\<close>

definition is_js_space :: "char \<Rightarrow> bool" where
  "is_js_space c = ((of_char c :: nat) \<in> {9, 10, 11, 12, 13, 32, 160})"

definition js_trim_start :: "string \<Rightarrow> string" where
  "js_trim_start s = dropWhile is_js_space s"

definition js_trim :: "string \<Rightarrow> string" where
  "js_trim s = rev (dropWhile is_js_space (rev (dropWhile is_js_space s)))"

text \<open>The value of a character as a digit (letters count from 10, in either case).\<close>

definition digit_of :: "char \<Rightarrow> nat option" where
  "digit_of c =
     (let n = (of_char c :: nat) in
      if 48 \<le> n \<and> n \<le> 57 then Some (n - 48)
      else if 97 \<le> n \<and> n \<le> 122 then Some (n - 87)
      else if 65 \<le> n \<and> n \<le> 90 then Some (n - 55)
      else None)"

definition is_digit_in :: "nat \<Rightarrow> char \<Rightarrow> bool" where
  "is_digit_in radix c = (case digit_of c of Some d \<Rightarrow> d < radix | None \<Rightarrow> False)"

definition digits_val :: "nat \<Rightarrow> string \<Rightarrow> 'a::semiring_1" where
  "digits_val radix ds =
     foldl (\<lambda>acc c. acc * of_nat radix + (case digit_of c of Some d \<Rightarrow> of_nat d | None \<Rightarrow> 0)) 0 ds"

definition pow10 :: "int \<Rightarrow> rat" where
  "pow10 e = (if 0 \<le> e then 10 ^ nat e else 1 / 10 ^ nat (- e))"

text \<open>
  \<open>StringToNumber\<close> follows the grammar of ECMAScript's StringNumericLiteral: optional
  white space around a signed decimal literal (with \<open>Infinity\<close>, a fraction and an
  exponent) or an unsigned binary, octal or hexadecimal integer literal; the empty
  string is 0 and anything else is NaN. The value written is rounded to the nearest
  double.
\<close>

definition exponent_part :: "string \<Rightarrow> int option" where
  "exponent_part r =
     (case r of
        [] \<Rightarrow> Some 0
      | c # r' \<Rightarrow>
          if c = CHR ''e'' \<or> c = CHR ''E'' then
            (let (neg, ds) = (case r' of
                                [] \<Rightarrow> (False, [])
                              | d # r'' \<Rightarrow> if d = CHR ''-'' then (True, r'')
                                           else if d = CHR ''+'' then (False, r'')
                                           else (False, r'))
             in if ds \<noteq> [] \<and> list_all (is_digit_in 10) ds
                then Some (if neg then - digits_val 10 ds else digits_val 10 ds)
                else None)
          else None)"

definition str_unsigned_decimal :: "string \<Rightarrow> jsnum" where
  "str_unsigned_decimal s =
     (if s = ''Infinity'' then PInf
      else
        let ip = takeWhile (is_digit_in 10) s;
            r1 = dropWhile (is_digit_in 10) s;
            (fp, r2) = (case r1 of
                          [] \<Rightarrow> ([], r1)
                        | c # r \<Rightarrow> if c = CHR ''.''
                                   then (takeWhile (is_digit_in 10) r, dropWhile (is_digit_in 10) r)
                                   else ([], r1))
        in if ip = [] \<and> fp = [] then NaN
           else case exponent_part r2 of
                  None \<Rightarrow> NaN
                | Some e \<Rightarrow>
                    to_double ((digits_val 10 ip + digits_val 10 fp / 10 ^ length fp) * pow10 e))"

definition non_decimal_radix :: "string \<Rightarrow> nat option" where
  "non_decimal_radix s =
     (case s of
        z # x # _ \<Rightarrow>
          if z \<noteq> CHR ''0'' then None
          else if x = CHR ''x'' \<or> x = CHR ''X'' then Some 16
          else if x = CHR ''o'' \<or> x = CHR ''O'' then Some 8
          else if x = CHR ''b'' \<or> x = CHR ''B'' then Some 2
          else None
      | _ \<Rightarrow> None)"

definition StringToNumber :: "string \<Rightarrow> jsnum" where
  "StringToNumber s =
     (let t = js_trim s in
      case t of
        [] \<Rightarrow> Fin 0
      | c # r \<Rightarrow>
          if c = CHR ''+'' then str_unsigned_decimal r
          else if c = CHR ''-'' then js_neg (str_unsigned_decimal r)
          else case non_decimal_radix t of
                 Some radix \<Rightarrow>
                   (let ds = drop 2 t in
                    if ds \<noteq> [] \<and> list_all (is_digit_in radix) ds
                    then to_double (digits_val radix ds) else NaN)
               | None \<Rightarrow> str_unsigned_decimal t)"

text \<open>
  \<open>parseInt\<close> with no radix: leading white space and a sign are skipped, a \<open>0x\<close>
  prefix selects radix 16, and the longest prefix of digits is read; NaN when there
  is no digit.
\<close>

definition parseInt_string :: "string \<Rightarrow> jsnum" where
  "parseInt_string s =
     (let t = js_trim_start s;
          (neg, u) = (case t of
                        [] \<Rightarrow> (False, t)
                      | c # r \<Rightarrow> if c = CHR ''-'' then (True, r)
                                 else if c = CHR ''+'' then (False, r)
                                 else (False, t));
          (radix, v) = (if non_decimal_radix u = Some 16 then (16, drop 2 u) else (10, u));
          z = takeWhile (is_digit_in radix) v
      in if z = [] then NaN
         else if neg then to_double (- digits_val radix z)
         else to_double (digits_val radix z))"

subsection \<open>Query parameter values\<close>

text \<open>
  The request's query as the query-string parser delivers it: a mapping from keys to
  strings, arrays, or nested mappings. An object is the list of its properties in
  enumeration order; \<open>obj_get\<close> reads a property (\<open>None\<close> is \<open>undefined\<close>).
\<close>

datatype qval = QStr string | QArr "qval list" | QObj "(string \<times> qval) list"

type_synonym qobject = "(string \<times> qval) list"

definition obj_get :: "(string \<times> 'a) list \<Rightarrow> string \<Rightarrow> 'a option" where
  "obj_get obj k = map_of obj k"

fun join_with :: "'a list \<Rightarrow> 'a list list \<Rightarrow> 'a list" where
  "join_with sep [] = []"
| "join_with sep [x] = x"
| "join_with sep (x # y # ys) = x @ sep @ join_with sep (y # ys)"

text \<open>\<open>ToString\<close>: an array joins its elements with commas, a plain object is \<open>[object Object]\<close>.\<close>

fun js_toString :: "qval \<Rightarrow> string" where
  "js_toString (QStr s) = s"
| "js_toString (QArr xs) = join_with '','' (map js_toString xs)"
| "js_toString (QObj ms) = ''[object Object]''"

definition js_toString_opt :: "qval option \<Rightarrow> string" where
  "js_toString_opt v = (case v of None \<Rightarrow> ''undefined'' | Some x \<Rightarrow> js_toString x)"

text \<open>\<open>Number(v)\<close> and \<open>parseInt(v)\<close> on a query parameter; \<open>Number(undefined)\<close> is NaN.\<close>

definition Number_js :: "qval option \<Rightarrow> jsnum" where
  "Number_js v = (case v of None \<Rightarrow> NaN | Some x \<Rightarrow> StringToNumber (js_toString x))"

definition parseInt_js :: "qval option \<Rightarrow> jsnum" where
  "parseInt_js v = parseInt_string (js_toString_opt v)"

text \<open>Truthiness of a query parameter: \<open>undefined\<close> and the empty string are falsy.\<close>

definition truthy :: "qval option \<Rightarrow> bool" where
  "truthy v = (case v of None \<Rightarrow> False | Some (QStr s) \<Rightarrow> s \<noteq> [] | Some _ \<Rightarrow> True)"

subsection \<open>JSON.stringify on query objects\<close>

definition dquote :: char where "dquote = CHR 0x22"
definition bslash :: char where "bslash = CHR 0x5C"

definition hex_digit :: "nat \<Rightarrow> char" where
  "hex_digit n = (if n < 10 then char_of (48 + n) else char_of (87 + n))"

text \<open>
  Inside a string literal the quote, the backslash and the control characters are
  escaped (the short forms where JSON has one, \<open>\u00xx\<close> otherwise).
\<close>

definition json_escape_char :: "char \<Rightarrow> string" where
  "json_escape_char c =
     (if c = dquote then [bslash, dquote]
      else if c = bslash then [bslash, bslash]
      else if c = CHR 0x08 then [bslash, CHR ''b'']
      else if c = CHR 0x0C then [bslash, CHR ''f'']
      else if c = CHR 0x0A then [bslash, CHR ''n'']
      else if c = CHR 0x0D then [bslash, CHR ''r'']
      else if c = CHR 0x09 then [bslash, CHR ''t'']
      else if (of_char c :: nat) < 32 then
        [bslash, CHR ''u'', CHR ''0'', CHR ''0'',
         hex_digit ((of_char c :: nat) div 16), hex_digit ((of_char c :: nat) mod 16)]
      else [c])"

definition json_escape :: "string \<Rightarrow> string" where
  "json_escape s = concat (map json_escape_char s)"

definition quote_json :: "string \<Rightarrow> string" where
  "quote_json s = dquote # json_escape s @ [dquote]"

fun JSON_stringify :: "qval \<Rightarrow> string" where
  "JSON_stringify (QStr s) = quote_json s"
| "JSON_stringify (QArr xs) = ''['' @ join_with '','' (map JSON_stringify xs) @ '']''"
| "JSON_stringify (QObj ms) =
     ''{'' @ join_with '','' (map (\<lambda>(k, v). quote_json k @ '':'' @ JSON_stringify v) ms) @ ''}''"

subsection \<open>The operator regex\<close>

text \<open>
  \<open>queryStr.replace(/\b(gt|gte|lt|lte|in)\b/g, (match) => `$${match}`)\<close>.
  A word character is a letter, a digit or the underscore; \<open>\b\<close> holds between a
  word character and a non-word character (or an end of the string). The alternatives
  are tried in the order written. \<open>prev\<close> says whether the character before the
  current position is a word character.
\<close>

definition is_word_char :: "char \<Rightarrow> bool" where
  "is_word_char c =
     (let n = (of_char c :: nat) in
      (48 \<le> n \<and> n \<le> 57) \<or> (65 \<le> n \<and> n \<le> 90) \<or> (97 \<le> n \<and> n \<le> 122) \<or> n = 95)"

definition operator_tokens :: "string list" where
  "operator_tokens = [''gt'', ''gte'', ''lt'', ''lte'', ''in'']"

definition word_boundary :: "bool \<Rightarrow> string \<Rightarrow> bool" where
  "word_boundary prev rest = (prev \<noteq> (case rest of [] \<Rightarrow> False | c # _ \<Rightarrow> is_word_char c))"

definition match_here :: "bool \<Rightarrow> string \<Rightarrow> string option" where
  "match_here prev cs =
     (if word_boundary prev cs
      then find (\<lambda>w. take (length w) cs = w
                    \<and> word_boundary (is_word_char (last w)) (drop (length w) cs))
                operator_tokens
      else None)"

function replace_from :: "bool \<Rightarrow> string \<Rightarrow> string" where
  "replace_from prev [] = []"
| "replace_from prev (c # cs) =
     (case match_here prev (c # cs) of
        Some w \<Rightarrow> ''$'' @ w @ replace_from (is_word_char (last w)) (drop (length w) (c # cs))
      | None \<Rightarrow> c # replace_from (is_word_char c) cs)"
  by pat_completeness auto
termination
  by (relation "measure (\<lambda>(prev, cs). length cs)")
     (auto simp: match_here_def find_Some_iff operator_tokens_def nth_Cons split: if_splits nat.splits)

definition replace_operators :: "string \<Rightarrow> string" where
  "replace_operators s = replace_from False s"

subsection \<open>JSON.parse on objects, arrays and strings\<close>

text \<open>
  The parser reads the part of JSON that \<open>JSON.stringify\<close> emits for a query object:
  objects, arrays and string literals, with optional white space between tokens.
  Any other text is a syntax error (\<open>None\<close>). A \<open>\uxxxx\<close> escape is read when it names
  a character of the 8-bit range.
\<close>

datatype token = TLBrace | TRBrace | TLBrack | TRBrack | TColon | TComma | TString string

datatype lex_state = Outside | InString string | Escape string | Unicode string string

definition is_json_space :: "char \<Rightarrow> bool" where
  "is_json_space c = ((of_char c :: nat) \<in> {9, 10, 13, 32})"

definition unescape_char :: "char \<Rightarrow> char option" where
  "unescape_char c =
     (if c = dquote then Some dquote
      else if c = bslash then Some bslash
      else if c = CHR ''/'' then Some (CHR ''/'')
      else if c = CHR ''b'' then Some (CHR 0x08)
      else if c = CHR ''f'' then Some (CHR 0x0C)
      else if c = CHR ''n'' then Some (CHR 0x0A)
      else if c = CHR ''r'' then Some (CHR 0x0D)
      else if c = CHR ''t'' then Some (CHR 0x09)
      else None)"

definition punctuation :: "char \<Rightarrow> token option" where
  "punctuation c =
     (if c = CHR ''{'' then Some TLBrace
      else if c = CHR ''}'' then Some TRBrace
      else if c = CHR ''['' then Some TLBrack
      else if c = CHR '']'' then Some TRBrack
      else if c = CHR '':'' then Some TColon
      else if c = CHR '','' then Some TComma
      else None)"

text \<open>The string under construction is kept reversed in the lexer's state.\<close>

fun lex :: "lex_state \<Rightarrow> string \<Rightarrow> token list option" where
  "lex Outside [] = Some []"
| "lex _ [] = None"
| "lex Outside (c # cs) =
     (if c = dquote then lex (InString []) cs
      else if is_json_space c then lex Outside cs
      else case punctuation c of
             Some t \<Rightarrow> map_option (Cons t) (lex Outside cs)
           | None \<Rightarrow> None)"
| "lex (InString acc) (c # cs) =
     (if c = dquote then map_option (Cons (TString (rev acc))) (lex Outside cs)
      else if c = bslash then lex (Escape acc) cs
      else if (of_char c :: nat) < 32 then None
      else lex (InString (c # acc)) cs)"
| "lex (Escape acc) (c # cs) =
     (if c = CHR ''u'' then lex (Unicode acc []) cs
      else case unescape_char c of
             Some d \<Rightarrow> lex (InString (d # acc)) cs
           | None \<Rightarrow> None)"
| "lex (Unicode acc hs) (c # cs) =
     (if is_digit_in 16 c then
        (if length hs = 3 then
           (if (digits_val 16 (hs @ [c]) :: nat) < 256
            then lex (InString (char_of (digits_val 16 (hs @ [c]) :: nat) # acc)) cs
            else None)
         else lex (Unicode acc (hs @ [c])) cs)
      else None)"

text \<open>
  Defining a property on the object under construction: a key that is already there
  keeps its place and takes the new value.
\<close>

fun obj_set :: "string \<Rightarrow> 'a \<Rightarrow> (string \<times> 'a) list \<Rightarrow> (string \<times> 'a) list" where
  "obj_set k v [] = [(k, v)]"
| "obj_set k v ((k', v') # ms) = (if k' = k then (k, v) # ms else (k', v') # obj_set k v ms)"

text \<open>
  The parser proper is a stack machine over the tokens. A frame is an array with the
  elements read so far (latest first), or an object with its members so far and the
  key that awaits its value.
\<close>

datatype frame = FArr "qval list" | FObj "(string \<times> qval) list" "string option"

datatype mode = MValue | MArrStart | MObjStart | MKey | MColon | MAfter | MDone qval | MError

fun deliver :: "qval \<Rightarrow> frame list \<Rightarrow> mode \<times> frame list" where
  "deliver v [] = (MDone v, [])"
| "deliver v (FArr items # st) = (MAfter, FArr (v # items) # st)"
| "deliver v (FObj ms (Some k) # st) = (MAfter, FObj (obj_set k v ms) None # st)"
| "deliver v (FObj ms None # st) = (MError, [])"

definition parse_error :: "mode \<times> frame list" where
  "parse_error = (MError, [])"

definition start_value :: "frame list \<Rightarrow> token \<Rightarrow> mode \<times> frame list" where
  "start_value st t =
     (case t of
        TString s \<Rightarrow> deliver (QStr s) st
      | TLBrack \<Rightarrow> (MArrStart, FArr [] # st)
      | TLBrace \<Rightarrow> (MObjStart, FObj [] None # st)
      | _ \<Rightarrow> parse_error)"

definition close_array :: "frame list \<Rightarrow> mode \<times> frame list" where
  "close_array st =
     (case st of
        FArr items # st' \<Rightarrow> deliver (QArr (rev items)) st'
      | _ \<Rightarrow> parse_error)"

definition close_object :: "frame list \<Rightarrow> mode \<times> frame list" where
  "close_object st =
     (case st of
        FObj ms None # st' \<Rightarrow> deliver (QObj ms) st'
      | _ \<Rightarrow> parse_error)"

definition read_key :: "frame list \<Rightarrow> token \<Rightarrow> mode \<times> frame list" where
  "read_key st t =
     (case st of
        FObj ms None # st' \<Rightarrow>
          (case t of TString k \<Rightarrow> (MColon, FObj ms (Some k) # st') | _ \<Rightarrow> parse_error)
      | _ \<Rightarrow> parse_error)"

definition after_value :: "frame list \<Rightarrow> token \<Rightarrow> mode \<times> frame list" where
  "after_value st t =
     (case t of
        TComma \<Rightarrow>
          (case st of
             FArr items # st' \<Rightarrow> (MValue, st)
           | FObj ms None # st' \<Rightarrow> (MKey, st)
           | _ \<Rightarrow> parse_error)
      | TRBrack \<Rightarrow> close_array st
      | TRBrace \<Rightarrow> close_object st
      | _ \<Rightarrow> parse_error)"

definition parse_step :: "mode \<times> frame list \<Rightarrow> token \<Rightarrow> mode \<times> frame list" where
  "parse_step cfg t =
     (case cfg of (m, st) \<Rightarrow>
        (case m of
           MValue \<Rightarrow> start_value st t
         | MArrStart \<Rightarrow> (if t = TRBrack then close_array st else start_value st t)
         | MObjStart \<Rightarrow> (if t = TRBrace then close_object st else read_key st t)
         | MKey \<Rightarrow> read_key st t
         | MColon \<Rightarrow> (if t = TColon then (MValue, st) else parse_error)
         | MAfter \<Rightarrow> after_value st t
         | MDone v \<Rightarrow> parse_error
         | MError \<Rightarrow> parse_error))"

definition parse_tokens :: "token list \<Rightarrow> qval option" where
  "parse_tokens ts =
     (case foldl parse_step (MValue, []) ts of
        (MDone v, _) \<Rightarrow> Some v
      | _ \<Rightarrow> None)"

definition JSON_parse :: "string \<Rightarrow> qval option" where
  "JSON_parse s = (case lex Outside s of None \<Rightarrow> None | Some ts \<Rightarrow> parse_tokens ts)"

section \<open>The document store, as the query helper sees it\<close>

text \<open>
  A condition object handed to \<open>find\<close> or \<open>countDocuments\<close>: strings, numbers,
  booleans, arrays and nested objects. \<open>cond_of\<close> embeds a query parameter value.
\<close>

datatype cond =
  CStr string | CNum jsnum | CBool bool | CArr "cond list" | CObj "(string \<times> cond) list"

fun cond_of :: "qval \<Rightarrow> cond" where
  "cond_of (QStr s) = CStr s"
| "cond_of (QArr xs) = CArr (map cond_of xs)"
| "cond_of (QObj ms) = CObj (map (\<lambda>(k, v). (k, cond_of v)) ms)"

text \<open>
  A query under construction: the condition objects passed to \<open>find\<close>, in call order,
  and the options set by \<open>collation\<close>, \<open>sort\<close>, \<open>select\<close>, \<open>skip\<close> and \<open>limit\<close>.
\<close>

record mquery =
  conditions :: "cond list"
  collationOpt :: "(string \<times> nat) option"
  sortOpt :: "cond option"
  selectOpt :: "string option"
  skipOpt :: "jsnum option"
  limitOpt :: "jsnum option"

definition Model_find :: "cond \<Rightarrow> mquery" where
  "Model_find c = \<lparr>conditions = [c], collationOpt = None, sortOpt = None,
                    selectOpt = None, skipOpt = None, limitOpt = None\<rparr>"

definition find_more :: "cond \<Rightarrow> mquery \<Rightarrow> mquery" where
  "find_more c q = q\<lparr>conditions := conditions q @ [c]\<rparr>"

text \<open>
  The store's own semantics are parameters of the model: which documents a list of
  condition objects selects, how a sort specification orders them, which window
  \<open>skip\<close> and \<open>limit\<close> cut out, and what a projection keeps of a document.
  Executing a query selects, then orders, then cuts the window, then projects.
\<close>

record ('d, 'r) store =
  selects :: "cond list \<Rightarrow> 'd \<Rightarrow> bool"
  orders :: "(string \<times> nat) option \<Rightarrow> cond option \<Rightarrow> 'd list \<Rightarrow> 'd list"
  window :: "jsnum option \<Rightarrow> jsnum option \<Rightarrow> 'd list \<Rightarrow> 'd list"
  projects :: "string option \<Rightarrow> 'd \<Rightarrow> 'r"

definition exec_query :: "('d, 'r) store \<Rightarrow> 'd list \<Rightarrow> mquery \<Rightarrow> 'r list" where
  "exec_query S coll q =
     map (projects S (selectOpt q))
       (window S (skipOpt q) (limitOpt q)
         (orders S (collationOpt q) (sortOpt q)
           (filter (selects S (conditions q)) coll)))"

text \<open>\<open>Model.countDocuments(c)\<close>, and \<open>Model.countDocuments()\<close> with no predicate.\<close>

definition Model_countDocuments :: "('d, 'r) store \<Rightarrow> 'd list \<Rightarrow> cond \<Rightarrow> nat" where
  "Model_countDocuments S coll c = length (filter (selects S [c]) coll)"

definition Model_countDocuments_all :: "'d list \<Rightarrow> nat" where
  "Model_countDocuments_all coll = length coll"

text \<open>The calls a handler makes to the store, in order.\<close>

datatype store_call = CallFind mquery | CallCount "cond option"

section \<open>ApiFeatures (src/utils/ApiFeatures.js)\<close>

datatype error = TypeError | SyntaxError | ReferenceError | ApiError string nat "string option"

record pagination =
  currentPage :: jsnum
  limit :: jsnum
  numberOfPages :: jsnum
  nextPage :: "jsnum option"
  previousPage :: "jsnum option"

record api_features =
  mongooseQuery :: mquery
  queryString :: qobject
  paginationResults :: "pagination option"

definition new_ApiFeatures :: "mquery \<Rightarrow> qobject \<Rightarrow> api_features" where
  "new_ApiFeatures mq qs = \<lparr>mongooseQuery = mq, queryString = qs, paginationResults = None\<rparr>"

text \<open>\<open>s.split(",").join(" ")\<close>: the pieces between commas, joined with spaces.\<close>

fun split_on :: "char \<Rightarrow> string \<Rightarrow> string list" where
  "split_on sep [] = [[]]"
| "split_on sep (c # cs) =
     (if c = sep then [] # split_on sep cs
      else (case split_on sep cs of
              [] \<Rightarrow> [[c]]
            | p # ps \<Rightarrow> (c # p) # ps))"

definition commas_to_spaces :: "string \<Rightarrow> string" where
  "commas_to_spaces s = join_with '' '' (split_on (CHR '','') s)"

text \<open>
  \<open>sort()\<close>: a truthy \<open>sort\<close> parameter must be a string (an array or an object has no
  \<open>split\<close>, and the call throws); otherwise the default order is \<open>-createdAt\<close>.
\<close>

definition sort_step :: "api_features \<Rightarrow> error + api_features" where
  "sort_step f =
     (if truthy (obj_get (queryString f) ''sort'') then
        (case obj_get (queryString f) ''sort'' of
           Some (QStr s) \<Rightarrow>
             Inr (f\<lparr>mongooseQuery := (mongooseQuery f)
                      \<lparr>collationOpt := Some (''en'', 2), sortOpt := Some (CStr (commas_to_spaces s))\<rparr>\<rparr>)
         | _ \<Rightarrow> Inl TypeError)
      else
        Inr (f\<lparr>mongooseQuery := (mongooseQuery f)
                 \<lparr>collationOpt := Some (''en'', 2), sortOpt := Some (CStr ''-createdAt'')\<rparr>\<rparr>))"

definition limitFields :: "api_features \<Rightarrow> error + api_features" where
  "limitFields f =
     (if truthy (obj_get (queryString f) ''fields'') then
        (case obj_get (queryString f) ''fields'' of
           Some (QStr s) \<Rightarrow>
             Inr (f\<lparr>mongooseQuery := (mongooseQuery f)\<lparr>selectOpt := Some (commas_to_spaces s)\<rparr>\<rparr>)
         | _ \<Rightarrow> Inl TypeError)
      else
        Inr (f\<lparr>mongooseQuery := (mongooseQuery f)\<lparr>selectOpt := Some ''-__v''\<rparr>\<rparr>))"

text \<open>
  \<open>search(modelName)\<close>: the fields matched against the keyword are chosen here, from
  the model's name.
\<close>

definition regex_cond :: "string \<Rightarrow> cond \<Rightarrow> cond" where
  "regex_cond field kw = CObj [(field, CObj [(''$regex'', kw), (''$options'', CStr ''i'')])]"

definition search_fields :: "string \<Rightarrow> string list" where
  "search_fields modelName =
     (if modelName = ''Product'' then [''title'', ''description''] else [''name''])"

definition search_step :: "string \<Rightarrow> api_features \<Rightarrow> api_features" where
  "search_step modelName f =
     (if truthy (obj_get (queryString f) ''keyword'') then
        (case obj_get (queryString f) ''keyword'' of
           Some searchQuery \<Rightarrow>
             f\<lparr>mongooseQuery :=
                 find_more (CObj [(''$or'', CArr (map (\<lambda>fld. regex_cond fld (cond_of searchQuery))
                                                   (search_fields modelName)))])
                           (mongooseQuery f)\<rparr>
         | None \<Rightarrow> f)
      else f)"

text \<open>\<open>paginate(countDocuments)\<close>.\<close>

definition paginate :: "jsnum \<Rightarrow> api_features \<Rightarrow> api_features" where
  "paginate countDocuments f =
     (let page = js_or (Number_js (obj_get (queryString f) ''page'')) (Fin 1);
          lim = js_or (Number_js (obj_get (queryString f) ''limit'')) (Fin 25);
          skip = js_mul (js_sub page (Fin 1)) lim;
          endIndex = js_mul page lim;
          res = \<lparr>currentPage = page, limit = lim,
                 numberOfPages = js_ceil (js_div countDocuments lim),
                 nextPage = (if js_lt endIndex countDocuments then Some (js_add page (Fin 1)) else None),
                 previousPage = (if js_gt skip (Fin 0) then Some (js_sub page (Fin 1)) else None)\<rparr>
      in f\<lparr>paginationResults := Some res,
           mongooseQuery := (mongooseQuery f)\<lparr>skipOpt := Some skip, limitOpt := Some lim\<rparr>\<rparr>)"

text \<open>
  \<open>filter()\<close>. \<open>qs_parse\<close> stands for the query-string library's
  \<open>qs.parse(_, { depth: 1 })\<close>, applied to the request's query; the five excluded
  fields are deleted from its result, and what is left is serialised, rewritten by the
  operator regex and parsed back into the condition object for \<open>find\<close>. The
  general statements hold for any such function; the examples take a query whose keys
  are plain names, which the library returns as it is.
\<close>

definition excludeFields :: "string list" where
  "excludeFields = [''page'', ''sort'', ''limit'', ''fields'', ''keyword'']"

definition obj_delete :: "string \<Rightarrow> (string \<times> 'a) list \<Rightarrow> (string \<times> 'a) list" where
  "obj_delete k obj = filter (\<lambda>(k', v). k' \<noteq> k) obj"

definition filter_conditions :: "qobject \<Rightarrow> qval option" where
  "filter_conditions queryStringObj =
     JSON_parse (replace_operators (JSON_stringify (QObj (fold obj_delete excludeFields queryStringObj))))"

definition filter_step :: "(qobject \<Rightarrow> qobject) \<Rightarrow> api_features \<Rightarrow> error + api_features" where
  "filter_step qs_parse f =
     (case filter_conditions (qs_parse (queryString f)) of
        None \<Rightarrow> Inl SyntaxError
      | Some queryStr \<Rightarrow> Inr (f\<lparr>mongooseQuery := find_more (cond_of queryStr) (mongooseQuery f)\<rparr>))"

subsection \<open>What the translation amounts to\<close>

text \<open>
  The effect of serialising, rewriting and parsing back, described on the object
  itself. In a string, a dollar sign is put before every operator token that stands as
  a whole word of the escaped text (so a letter that ends an escape sequence counts as
  part of the word that follows it). In an object, properties are defined in order,
  a repeated key keeping its first place and its last value.
\<close>

fun rewrite_from :: "bool \<Rightarrow> string \<Rightarrow> string" where
  "rewrite_from prev [] = []"
| "rewrite_from prev (c # s) =
     (if \<not> prev \<and> takeWhile is_word_char (json_escape (c # s)) \<in> set operator_tokens
      then ''$'' else [])
     @ c # rewrite_from (is_word_char (last (json_escape_char c))) s"

definition rewrite_string :: "string \<Rightarrow> string" where
  "rewrite_string s = rewrite_from False s"

fun rewrite_val :: "qval \<Rightarrow> qval" where
  "rewrite_val (QStr s) = QStr (rewrite_string s)"
| "rewrite_val (QArr xs) = QArr (map rewrite_val xs)"
| "rewrite_val (QObj ms) = QObj (map (\<lambda>(k, v). (rewrite_string k, rewrite_val v)) ms)"

fun rebuild :: "qval \<Rightarrow> qval" where
  "rebuild (QStr s) = QStr s"
| "rebuild (QArr xs) = QArr (map rebuild xs)"
| "rebuild (QObj ms) = QObj (foldl (\<lambda>acc (k, v). obj_set k v acc) [] (map (\<lambda>(k, v). (k, rebuild v)) ms))"

text \<open>The tokens of a value's JSON text.\<close>

fun tokens_of :: "qval \<Rightarrow> token list" where
  "tokens_of (QStr s) = [TString s]"
| "tokens_of (QArr xs) = TLBrack # join_with [TComma] (map tokens_of xs) @ [TRBrack]"
| "tokens_of (QObj ms) =
     TLBrace # join_with [TComma] (map (\<lambda>(k, v). TString k # TColon # tokens_of v) ms) @ [TRBrace]"


section \<open>The handler factory (in src/controllers/dashboardController.js)\<close>

record 'd model =
  modelName :: string
  hasStatusPath :: bool
  collection :: "'d list"

record request =
  query :: qobject
  filterObj :: "cond option"

record 'r list_response =
  results :: nat
  pageInfo :: "pagination option"
  data :: "'r list"

definition bind_err :: "error + 'a \<Rightarrow> ('a \<Rightarrow> error + 'b) \<Rightarrow> error + 'b" where
  "bind_err x g = (case x of Inl e \<Rightarrow> Inl e | Inr a \<Rightarrow> g a)"

text \<open>
  \<open>getAll\<close>: the methods of the chain, in the order the source calls them. The count
  is taken first, with no predicate. An exception thrown in the chain ends the handler
  after the count and before the query is run.
\<close>

datatype step = Search | LimitFields | Filter | Sort | Paginate

definition getAll_chain :: "step list" where
  "getAll_chain = [Search, LimitFields, Filter, Sort, Paginate]"

definition run_step ::
  "(qobject \<Rightarrow> qobject) \<Rightarrow> string \<Rightarrow> jsnum \<Rightarrow> step \<Rightarrow> api_features \<Rightarrow> error + api_features" where
  "run_step qs_parse name cnt st f =
     (case st of
        Search \<Rightarrow> Inr (search_step name f)
      | LimitFields \<Rightarrow> limitFields f
      | Filter \<Rightarrow> filter_step qs_parse f
      | Sort \<Rightarrow> sort_step f
      | Paginate \<Rightarrow> Inr (paginate cnt f))"

fun run_chain ::
  "(qobject \<Rightarrow> qobject) \<Rightarrow> string \<Rightarrow> jsnum \<Rightarrow> step list \<Rightarrow> api_features \<Rightarrow> error + api_features" where
  "run_chain qs_parse name cnt [] f = Inr f"
| "run_chain qs_parse name cnt (st # sts) f =
     bind_err (run_step qs_parse name cnt st f) (run_chain qs_parse name cnt sts)"

definition getAll_features ::
  "(qobject \<Rightarrow> qobject) \<Rightarrow> 'd model \<Rightarrow> request \<Rightarrow> error + api_features" where
  "getAll_features qs_parse M req =
     (let filterObj = (case filterObj req of Some c \<Rightarrow> c | None \<Rightarrow> CObj []);
          countDocuments = Model_countDocuments_all (collection M)
      in run_chain qs_parse (modelName M) (js_of_nat countDocuments) getAll_chain
           (new_ApiFeatures (Model_find filterObj) (query req)))"

definition getAll ::
  "(qobject \<Rightarrow> qobject) \<Rightarrow> ('d, 'r) store \<Rightarrow> 'd model \<Rightarrow> request
     \<Rightarrow> store_call list \<times> (error + 'r list_response)" where
  "getAll qs_parse S M req =
     (case getAll_features qs_parse M req of
        Inl e \<Rightarrow> ([CallCount None], Inl e)
      | Inr apiFeature \<Rightarrow>
          (let documents = exec_query S (collection M) (mongooseQuery apiFeature)
           in ([CallCount None, CallFind (mongooseQuery apiFeature)],
               Inr \<lparr>results = length documents,
                    pageInfo = paginationResults apiFeature,
                    data = documents\<rparr>)))"

text \<open>
  The page a search or a resource-specific listing answers with: the documents and
  the pagination it reports.
\<close>

record 'r page_response =
  items :: "'r list"
  pg_page :: jsnum
  pg_limit :: jsnum
  pg_total :: jsnum
  pg_pages :: jsnum

text \<open>
  \<open>searchDocuments(Model, searchFields)\<close>: the controller passes the fields to search.
  \<open>page\<close> and \<open>limit\<close> take their defaults only when the parameter is absent.
  A truthy \<open>q\<close> that is not a string has no \<open>trim\<close>, and the call throws. Once the
  guard is passed, the query and the count are both sent to the store. The response is
  then built with \<open>ApiResponse.paginated\<close>, and the file of the factory requires
  \<open>ApiError\<close> and \<open>ApiFeatures\<close> but not \<open>ApiResponse\<close>: evaluating that name throws
  a ReferenceError, so the handler ends in an error and sends no page.
\<close>

definition search_query_required :: error where
  "search_query_required = ApiError ''Search query is required'' 400 None"

definition searchConditions :: "string list \<Rightarrow> qval \<Rightarrow> cond list" where
  "searchConditions searchFields q = map (\<lambda>field. regex_cond field (cond_of q)) searchFields"

definition baseFilter :: "'d model \<Rightarrow> cond" where
  "baseFilter M =
     (if hasStatusPath M
      then CObj [(''status'', CObj [(''$in'', CArr [CStr ''approved'', CStr ''active'', CStr ''published''])])]
      else CObj [])"

definition search_condition :: "'d model \<Rightarrow> string list \<Rightarrow> qval \<Rightarrow> cond" where
  "search_condition M searchFields q =
     CObj [(''$and'', CArr [CObj [(''$or'', CArr (searchConditions searchFields q))], baseFilter M])]"

definition searchDocuments ::
  "('d, 'r) store \<Rightarrow> 'd model \<Rightarrow> string list \<Rightarrow> request
     \<Rightarrow> store_call list \<times> (error + 'r page_response)" where
  "searchDocuments S M searchFields req =
     (let q = obj_get (query req) ''q'';
          page = (case obj_get (query req) ''page'' of None \<Rightarrow> Fin 1 | Some v \<Rightarrow> Number_js (Some v));
          lim = (case obj_get (query req) ''limit'' of None \<Rightarrow> Fin 10 | Some v \<Rightarrow> Number_js (Some v));
          limInt = (case obj_get (query req) ''limit'' of None \<Rightarrow> Fin 10 | Some v \<Rightarrow> parseInt_js (Some v))
      in if \<not> truthy q then ([], Inl search_query_required)
         else case q of
           Some (QStr s) \<Rightarrow>
             if js_trim s = [] then ([], Inl search_query_required)
             else
               (let skip = js_mul (js_sub page (Fin 1)) lim;
                    c = search_condition M searchFields (QStr s);
                    qry = (Model_find c)\<lparr>skipOpt := Some skip, limitOpt := Some limInt,
                             sortOpt := Some (CObj [(''createdAt'', CNum (Fin (- 1)))])\<rparr>
                in ([CallFind qry, CallCount (Some c)], Inl ReferenceError))
         | _ \<Rightarrow> ([], Inl TypeError))"

section \<open>Resource-specific listings\<close>

text \<open>\<open>x = value\<close> on an object literal under construction, when the value is truthy.\<close>

definition set_if :: "bool \<Rightarrow> string \<Rightarrow> cond \<Rightarrow> (string \<times> cond) list \<Rightarrow> (string \<times> cond) list" where
  "set_if b k v obj = (if b then obj_set k v obj else obj)"

definition cond_param :: "qobject \<Rightarrow> string \<Rightarrow> cond" where
  "cond_param qs k = (case obj_get qs k of Some v \<Rightarrow> cond_of v | None \<Rightarrow> CObj [])"





text \<open>
  The gallery's \<open>searchUploads\<close> (in src/controllers/dashboardController.js) with the
  upload model's static \<open>Upload.searchUploads\<close> (src/unnamed/part_009): a text search
  among approved uploads. The total it reports is the size of the page it fetched. The
  text-score projection and the population of the user are left out.
\<close>

definition Upload_searchUploads :: "cond \<Rightarrow> (string \<times> cond) list \<Rightarrow> mquery" where
  "Upload_searchUploads qry filters =
     (Model_find (CObj (fold (\<lambda>(k, v). obj_set k v) filters
                          [(''$text'', CObj [(''$search'', qry)]), (''status'', CStr ''approved'')])))
       \<lparr>sortOpt := Some (CObj [(''score'', CObj [(''$meta'', CStr ''textScore'')])])\<rparr>"

definition gallery_searchUploads ::
  "('d, 'r) store \<Rightarrow> 'd list \<Rightarrow> request \<Rightarrow> store_call list \<times> (error + 'r page_response)" where
  "gallery_searchUploads S Upload req =
     (let qry = obj_get (query req) ''q'';
          page = js_or (parseInt_js (obj_get (query req) ''page'')) (Fin 1);
          lim = js_or (parseInt_js (obj_get (query req) ''limit'')) (Fin 20)
      in if \<not> truthy qry
         then ([], Inl (ApiError ''Search query is required'' 400 (Some ''search_query_required'')))
         else
           (let filters = set_if (truthy (obj_get (query req) ''fileType'')) ''fileType''
                            (cond_param (query req) ''fileType'')
                          (set_if (truthy (obj_get (query req) ''category'')) ''category''
                            (cond_param (query req) ''category'') []);
                fnd = (Upload_searchUploads (cond_param (query req) ''q'') filters)
                        \<lparr>selectOpt := Some ''-originalFileUrl'',
                         limitOpt := Some (js_mul lim (Fin 1)),
                         skipOpt := Some (js_mul (js_sub page (Fin 1)) lim)\<rparr>;
                uploads = exec_query S Upload fnd;
                total = length uploads
            in ([CallFind fnd],
                Inr \<lparr>items = uploads, pg_page = page, pg_limit = lim,
                     pg_total = js_of_nat total,
                     pg_pages = js_ceil (js_div (js_of_nat total) lim)\<rparr>)))"

text \<open>
  \<open>getNotifications\<close> (src/controllers/notificationController.js) with the model's
  static \<open>Notification.getForUser\<close> (src/unnamed/part_010). \<open>userId\<close> is the id of the
  signed-in user. The list is filtered by user and, when given, by type, read flag and
  priority; the total is the count of the user's notifications. The population of the
  user is left out.
\<close>

record 'r notifications_response =
  nr_results :: nat
  nr_totalResults :: jsnum
  nr_totalPages :: jsnum
  nr_currentPage :: jsnum
  nr_unreadCount :: jsnum
  nr_data :: "'r list"

definition Notification_getForUser ::
  "string \<Rightarrow> jsnum \<Rightarrow> jsnum \<Rightarrow> qval option \<Rightarrow> bool option \<Rightarrow> qval option \<Rightarrow> mquery" where
  "Notification_getForUser userId pageNo perPage type isRead priority =
     (let q0 = [(''user'', CStr userId)];
          q1 = set_if (truthy type) ''type'' (case type of Some v \<Rightarrow> cond_of v | None \<Rightarrow> CObj []) q0;
          q2 = (case isRead of Some b \<Rightarrow> obj_set ''isRead'' (CBool b) q1 | None \<Rightarrow> q1);
          qry = set_if (truthy priority) ''priority''
                  (case priority of Some v \<Rightarrow> cond_of v | None \<Rightarrow> CObj []) q2
      in (Model_find (CObj qry))\<lparr>sortOpt := Some (CObj [(''createdAt'', CNum (Fin (- 1)))]),
            limitOpt := Some (js_mul perPage (Fin 1)),
            skipOpt := Some (js_mul (js_sub pageNo (Fin 1)) perPage)\<rparr>)"

definition Notification_getUnreadCount :: "('d, 'r) store \<Rightarrow> 'd list \<Rightarrow> string \<Rightarrow> nat" where
  "Notification_getUnreadCount S Notification userId =
     Model_countDocuments S Notification (CObj [(''user'', CStr userId), (''isRead'', CBool False)])"

definition getNotifications ::
  "('d, 'r) store \<Rightarrow> 'd list \<Rightarrow> string \<Rightarrow> request
     \<Rightarrow> store_call list \<times> (error + 'r notifications_response)" where
  "getNotifications S Notification userId req =
     (let page = (case obj_get (query req) ''page'' of None \<Rightarrow> Fin 1 | Some v \<Rightarrow> parseInt_js (Some v));
          lim = (case obj_get (query req) ''limit'' of None \<Rightarrow> Fin 20 | Some v \<Rightarrow> parseInt_js (Some v));
          isRead = (case obj_get (query req) ''isRead'' of
                      None \<Rightarrow> None
                    | Some v \<Rightarrow> Some (v = QStr ''true''));
          fnd = Notification_getForUser userId page lim (obj_get (query req) ''type'') isRead
                  (obj_get (query req) ''priority'');
          notifications = exec_query S Notification fnd;
          totalNotifications = Model_countDocuments S Notification (CObj [(''user'', CStr userId)]);
          unreadCount = Notification_getUnreadCount S Notification userId;
          totalPages =
            js_ceil (js_div (js_of_nat totalNotifications)
                       (case obj_get (query req) ''limit'' of None \<Rightarrow> Fin 20 | Some v \<Rightarrow> Number_js (Some v)))
      in ([CallFind fnd,
           CallCount (Some (CObj [(''user'', CStr userId)])),
           CallCount (Some (CObj [(''user'', CStr userId), (''isRead'', CBool False)]))],
          Inr \<lparr>nr_results = length notifications,
               nr_totalResults = js_of_nat totalNotifications,
               nr_totalPages = totalPages,
               nr_currentPage = page,
               nr_unreadCount = js_of_nat unreadCount,
               nr_data = notifications\<rparr>))"

section \<open>A store for the fixtures\<close>

text \<open>
  Documents with numeric fields, and the store's reading of a condition object on
  them: a plain value is an equality, a nested object lists comparison operators, all
  of which must hold; the operand is cast to a number, as the object-document mapper
  does for a numeric path. A condition on a field the document lacks, or with an
  operator outside the five, selects nothing. The window skips and limits by whole
  numbers; the order is left as it is and the projection keeps the document.
\<close>

type_synonym doc = "(string \<times> rat) list"

definition cast_number :: "cond \<Rightarrow> jsnum" where
  "cast_number v = (case v of CStr s \<Rightarrow> StringToNumber s | CNum n \<Rightarrow> n | _ \<Rightarrow> NaN)"

definition op_holds :: "string \<Rightarrow> rat \<Rightarrow> cond \<Rightarrow> bool" where
  "op_holds opr x v =
     (if opr = ''$in'' then
        (case v of CArr vs \<Rightarrow> list_ex (\<lambda>a. cast_number a = Fin x) vs | _ \<Rightarrow> cast_number v = Fin x)
      else case cast_number v of
             Fin n \<Rightarrow>
               if opr = ''$gt'' then n < x
               else if opr = ''$gte'' then n \<le> x
               else if opr = ''$lt'' then x < n
               else if opr = ''$lte'' then x \<le> n
               else False
           | _ \<Rightarrow> False)"

definition field_holds :: "rat \<Rightarrow> cond \<Rightarrow> bool" where
  "field_holds x v =
     (case v of
        CObj ops \<Rightarrow> list_all (\<lambda>(opr, a). op_holds opr x a) ops
      | _ \<Rightarrow> cast_number v = Fin x)"

definition cond_holds :: "cond \<Rightarrow> doc \<Rightarrow> bool" where
  "cond_holds c d =
     (case c of
        CObj fs \<Rightarrow> list_all (\<lambda>(k, v). case map_of d k of Some x \<Rightarrow> field_holds x v | None \<Rightarrow> False) fs
      | _ \<Rightarrow> False)"

definition fixture_window :: "jsnum option \<Rightarrow> jsnum option \<Rightarrow> 'd list \<Rightarrow> 'd list" where
  "fixture_window sk lm xs =
     (case (sk, lm) of
        (Some (Fin s), Some (Fin l)) \<Rightarrow> take (nat \<lfloor>l\<rfloor>) (drop (nat \<lfloor>s\<rfloor>) xs)
      | _ \<Rightarrow> xs)"

definition fixture_store :: "(doc, doc) store" where
  "fixture_store =
     \<lparr>selects = (\<lambda>cs d. list_all (\<lambda>c. cond_holds c d) cs),
      orders = (\<lambda>coll srt xs. xs),
      window = fixture_window,
      projects = (\<lambda>sel d. d)\<rparr>"

definition priced :: "doc list" where
  "priced = [[(''price'', 5)], [(''price'', 10)], [(''price'', 30)], [(''price'', 50)], [(''price'', 60)]]"

definition priced_model :: "doc model" where
  "priced_model = \<lparr>modelName = ''Upload'', hasStatusPath = False, collection = priced\<rparr>"

section \<open>Rounding to a double\<close>

text \<open>
  What the arithmetic of the model guarantees: the exponent found by \<open>floor_log2\<close>
  brackets its argument, integers up to \<open>2^53\<close> in magnitude are doubles, rounding keeps
  the sign and does not cross a power of two, and the quotient of a count by an integer
  has the ceiling of the exact quotient.
\<close>

declare bit_length.simps [simp del]

lemma bit_length_pos: "0 < n \<Longrightarrow> 1 \<le> bit_length n"
proof (induction n rule: bit_length.induct)
  case (1 n)
  show ?case
  proof (cases "n div 2 \<le> 0")
    case True
    then have "bit_length (n div 2) = 0" by (simp add: bit_length.simps[of "n div 2"])
    with 1 show ?thesis by (simp add: bit_length.simps[of n])
  next
    case False
    with 1 have "1 \<le> bit_length (n div 2)" by simp
    with 1 show ?thesis by (simp add: bit_length.simps[of n])
  qed
qed

lemma bit_length_bounds:
  "0 < n \<Longrightarrow> 2 ^ nat (bit_length n - 1) \<le> n \<and> n < 2 ^ nat (bit_length n)"
proof (induction n rule: bit_length.induct)
  case (1 n)
  show ?case
  proof (cases "n div 2 \<le> 0")
    case True
    with 1(2) have n1: "n = 1" by linarith
    have "bit_length 0 = 0" by (simp add: bit_length.simps[of 0])
    then have "bit_length 1 = 1" by (simp add: bit_length.simps[of 1])
    with n1 show ?thesis by simp
  next
    case False
    then have pos: "0 < n div 2" by simp
    from 1(1)[OF _ pos] 1(2)
    have ih: "2 ^ nat (bit_length (n div 2) - 1) \<le> n div 2" "n div 2 < 2 ^ nat (bit_length (n div 2))"
      by simp_all
    have bl: "bit_length n = 1 + bit_length (n div 2)" using 1(2) by (simp add: bit_length.simps[of n])
    have ge1: "1 \<le> bit_length (n div 2)" using bit_length_pos[OF pos] .
    have e1: "nat (bit_length n - 1) = Suc (nat (bit_length (n div 2) - 1))" using bl ge1 by simp
    have e2: "nat (bit_length n) = Suc (nat (bit_length (n div 2)))" using bl ge1 by simp
    show ?thesis unfolding e1 e2 using ih by simp linarith
  qed
qed

lemma powi_nat: "0 \<le> k \<Longrightarrow> (2::rat) powi k = 2 ^ nat k"
  by (simp add: power_int_def)


lemma powi_mono: "j \<le> k \<Longrightarrow> (2::rat) powi j \<le> 2 powi k"
  by (rule power_int_increasing) simp_all


lemma powi_less_cancel: "(2::rat) powi j < 2 powi k \<Longrightarrow> j < k"
  using powi_mono[of k j] by (cases "j < k") auto

lemma powi_add1: "(2::rat) powi (k + 1) = 2 * 2 powi k"
  by (simp add: power_int_add)

lemma powi_sub1: "(2::rat) powi (k - 1) = 2 powi k / 2"
  by (simp add: power_int_diff)

lemma floor_log2_bounds:
  assumes "0 < x"
  shows "2 powi floor_log2 x \<le> x" "x < 2 powi (floor_log2 x + 1)"
proof -
  obtain n d where q: "quotient_of x = (n, d)" by (cases "quotient_of x")
  have d: "0 < d" using q quotient_of_denom_pos by blast
  have x: "x = of_int n / of_int d" using q by (rule quotient_of_div)
  have n: "0 < n" using assms d x by (simp add: zero_less_divide_iff)
  define k where "k = bit_length n - bit_length d"
  have fl: "floor_log2 x = (if 2 powi k \<le> x then k else k - 1)"
    by (simp add: floor_log2_def q k_def Let_def)
  note bn = bit_length_bounds[OF n] and bd = bit_length_bounds[OF d]
  have pn: "1 \<le> bit_length n" and pd: "1 \<le> bit_length d"
    using bit_length_pos n d by auto
  have nr: "2 powi (bit_length n - 1) \<le> (of_int n :: rat)" "(of_int n :: rat) < 2 powi bit_length n"
  proof -
    have "(of_int (2 ^ nat (bit_length n - 1)) :: rat) \<le> of_int n" using bn by (simp only: of_int_le_iff)
    then show "2 powi (bit_length n - 1) \<le> (of_int n :: rat)" using pn by (simp add: powi_nat)
    have "(of_int n :: rat) < of_int (2 ^ nat (bit_length n))" using bn by (simp only: of_int_less_iff)
    then show "(of_int n :: rat) < 2 powi bit_length n" using pn by (simp add: powi_nat)
  qed
  have dr: "2 powi (bit_length d - 1) \<le> (of_int d :: rat)" "(of_int d :: rat) < 2 powi bit_length d"
  proof -
    have "(of_int (2 ^ nat (bit_length d - 1)) :: rat) \<le> of_int d" using bd by (simp only: of_int_le_iff)
    then show "2 powi (bit_length d - 1) \<le> (of_int d :: rat)" using pd by (simp add: powi_nat)
    have "(of_int d :: rat) < of_int (2 ^ nat (bit_length d))" using bd by (simp only: of_int_less_iff)
    then show "(of_int d :: rat) < 2 powi bit_length d" using pd by (simp add: powi_nat)
  qed
  have dpos: "0 < (of_int d :: rat)" using d by simp
  have up: "x < 2 powi (k + 1)"
  proof -
    have "of_int n < 2 powi bit_length n * ((of_int d :: rat) / 2 powi (bit_length d - 1))"
    proof -
      have "1 \<le> (of_int d :: rat) / 2 powi (bit_length d - 1)" using dr(1) by (simp add: le_divide_eq)
      then have "2 powi bit_length n * 1 \<le> 2 powi bit_length n * ((of_int d :: rat) / 2 powi (bit_length d - 1))"
        by (intro mult_left_mono) simp_all
      with nr(2) show ?thesis by simp
    qed
    also have "\<dots> = 2 powi (k + 1) * of_int d"
      by (simp add: k_def power_int_diff power_int_add)
    finally show ?thesis using dpos by (simp add: x pos_divide_less_eq)
  qed
  have low: "2 powi (k - 1) \<le> x"
  proof -
    have "2 powi (k - 1) * (of_int d :: rat) \<le> 2 powi (k - 1) * 2 powi bit_length d"
      using dr(2) by (intro mult_left_mono) simp_all
    also have "\<dots> = 2 powi (bit_length n - 1)"
      by (simp add: k_def power_int_diff power_int_add)
    also have "\<dots> \<le> of_int n" by (rule nr(1))
    finally show ?thesis using dpos by (simp add: x pos_le_divide_eq)
  qed
  show "2 powi floor_log2 x \<le> x" using fl low by auto
  show "x < 2 powi (floor_log2 x + 1)" using fl up by (auto simp: not_le)
qed

lemma floor_log2_less: "0 < x \<Longrightarrow> x < 2 powi k \<Longrightarrow> floor_log2 x < k"
  using floor_log2_bounds(1)[of x] powi_less_cancel[of "floor_log2 x" k] by simp

lemma floor_log2_ge: "0 < x \<Longrightarrow> 2 powi k \<le> x \<Longrightarrow> k \<le> floor_log2 x"
  using floor_log2_bounds(2)[of x] powi_less_cancel[of k "floor_log2 x + 1"] by simp


lemma of_int_le_pow2: "n \<le> 2 ^ k \<Longrightarrow> (of_int n :: rat) \<le> 2 ^ k"
  by (metis of_int_le_iff of_int_numeral of_int_power)



lemma round_half_even_of_int [simp]: "round_half_even (of_int n) = n"
  by (simp add: round_half_even_def)




text \<open>The rounding of a positive number, spelled out.\<close>

lemma to_double_pos:
  assumes "0 < x"
  shows "to_double x =
     (let e = max (floor_log2 x - 52) (- 1074);
          m = round_half_even (x / 2 powi e)
      in if 971 < e \<or> (e = 971 \<and> m = 2 ^ 53) then PInf else Fin (of_int m * 2 powi e))"
  using assms by (auto simp: to_double_def Let_def)

lemma to_double_neg: "to_double (- x) = js_neg (to_double x)"
  by (auto simp: to_double_def Let_def)

lemma to_double_zero [simp]: "to_double 0 = Fin 0"
  by (simp add: to_double_def)






text \<open>Integers up to \<open>2^53\<close> in magnitude are doubles.\<close>

lemma to_double_int_pos:
  assumes "0 < n" and "n \<le> 2 ^ 53"
  shows "to_double (of_int n) = Fin (of_int n)"
proof -
  let ?x = "of_int n :: rat"
  have x: "0 < ?x" using assms(1) by simp
  have x1: "2 powi 0 \<le> ?x" using assms(1) by simp
  define e where "e = max (floor_log2 ?x - 52) (- 1074)"
  have fl0: "0 \<le> floor_log2 ?x" using floor_log2_ge[OF x x1] .
  then have e: "e = floor_log2 ?x - 52" by (simp add: e_def)
  have scaled: "\<exists>k. ?x / 2 powi e = of_int k"
  proof (cases "e \<le> 0")
    case True
    then have "?x / 2 powi e = of_int (n * 2 ^ nat (- e))"
      by (simp add: power_int_def field_simps)
    then show ?thesis by blast
  next
    case False
    have "?x \<le> 2 powi 53" using of_int_le_pow2[OF assms(2)] by (simp add: powi_nat)
    moreover have "2 powi 53 \<le> ?x" using False e floor_log2_bounds(1)[OF x] powi_mono[of 53 "floor_log2 ?x"]
      by simp
    ultimately have xe: "?x = 2 powi 53" by simp
    then have "floor_log2 ?x < 54" by (intro floor_log2_less[OF x]) (simp add: powi_nat)
    with False e have "e = 1" by simp
    then have "?x / 2 powi e = of_int (2 ^ 52)" using xe by (simp add: powi_nat)
    then show ?thesis by blast
  qed
  then obtain k where k: "?x / 2 powi e = of_int k" ..
  have le1: "e \<le> 1"
  proof -
    have "?x < 2 powi 54"
    proof -
      have "?x \<le> 2 ^ 53" using assms(2) by (rule of_int_le_pow2)
      also have "\<dots> < (2 ^ 54 :: rat)" by simp
      finally show ?thesis by (simp add: powi_nat)
    qed
    then have "floor_log2 ?x < 54" by (rule floor_log2_less[OF x])
    then show ?thesis using e by simp
  qed
  have "of_int k * 2 powi e = ?x" using k by (simp add: field_simps)
  then show ?thesis using to_double_pos[OF x] le1 k by (simp add: Let_def e_def[symmetric])
qed

lemma to_double_int:
  assumes "\<bar>n\<bar> \<le> 2 ^ 53"
  shows "to_double (of_int n) = Fin (of_int n)"
proof -
  consider "n = 0" | "0 < n" | "n < 0" by linarith
  then show ?thesis
  proof cases
    case 1 then show ?thesis by simp
  next
    case 2 with assms show ?thesis by (intro to_double_int_pos) simp_all
  next
    case 3
    with assms have "to_double (of_int (- n)) = Fin (of_int (- n))" by (intro to_double_int_pos) simp_all
    then have "js_neg (to_double (of_int n)) = Fin (- of_int n)" by (simp add: to_double_neg)
    then show ?thesis by (cases "to_double (of_int n)") simp_all
  qed
qed




lemma to_double_numeral [simp]:
  "(numeral k :: int) \<le> 2 ^ 53 \<Longrightarrow> to_double (numeral k) = Fin (numeral k)"
  using to_double_int[of "numeral k"] by simp

lemma to_double_neg_numeral [simp]:
  "(numeral k :: int) \<le> 2 ^ 53 \<Longrightarrow> to_double (- numeral k) = Fin (- numeral k)"
  using to_double_int[of "- numeral k"] by simp

lemma to_double_one [simp]: "to_double 1 = Fin 1"
  using to_double_int[of 1] by simp







section \<open>Evaluation rules\<close>

lemmas number_simps =
  StringToNumber_def js_trim_def is_js_space_def str_unsigned_decimal_def
  non_decimal_radix_def exponent_part_def is_digit_in_def digit_of_def digits_val_def
  pow10_def parseInt_string_def js_trim_start_def Number_js_def parseInt_js_def
  js_toString_opt_def js_or_def truthy_num_def js_sub_def js_gt_def obj_get_def Let_def

section \<open>The pagination calculator\<close>







text \<open>
  The claim as stated does not hold for every limit of at least 1. With
  \<open>limit=1.3333333333333333\<close> and four documents the quotient is rounded to 3 before
  the ceiling is taken, and three pages are reported where \<open>ceil(totalCount / limit)\<close>
  is 4. With \<open>limit=Infinity\<close> no page is reported for four documents.
\<close>

theorem paginate_numberOfPages_counterexample:
  "paginationResults (paginate (js_of_nat 4)
      (new_ApiFeatures (Model_find (CObj [])) [(''limit'', QStr ''1.3333333333333333'')]))
     = Some \<lparr>currentPage = Fin 1, limit = Fin (6004799503160661 / 4503599627370496),
              numberOfPages = Fin 3, nextPage = Some (Fin 2), previousPage = None\<rparr>
   \<and> (1::rat) \<le> 6004799503160661 / 4503599627370496
   \<and> \<lceil>of_nat 4 / (6004799503160661 / 4503599627370496) :: rat\<rceil> = 4
   \<and> paginationResults (paginate (js_of_nat 4)
      (new_ApiFeatures (Model_find (CObj [])) [(''limit'', QStr ''Infinity'')]))
     = Some \<lparr>currentPage = Fin 1, limit = PInf,
              numberOfPages = Fin 0, nextPage = None, previousPage = None\<rparr>
   \<and> js_ge PInf (Fin 1) \<and> (4::nat) \<noteq> 0"
  by code_simp







section \<open>Which count feeds the pagination metadata\<close>


lemma getAll_features_shape:
  assumes "getAll_features qs_parse M req = Inr f"
  shows "\<exists>flt pg srt sel.
           filter_conditions (qs_parse (query req)) = Some flt
         \<and> paginationResults f = Some pg
         \<and> conditions (mongooseQuery f) =
                conditions (mongooseQuery (search_step (modelName M)
                  (new_ApiFeatures (Model_find (case filterObj req of Some c \<Rightarrow> c | None \<Rightarrow> CObj []))
                     (query req)))) @ [cond_of flt]
         \<and> collationOpt (mongooseQuery f) = Some (''en'', 2)
         \<and> sortOpt (mongooseQuery f) = Some (CStr srt)
         \<and> selectOpt (mongooseQuery f) = Some sel
         \<and> skipOpt (mongooseQuery f) = Some (js_mul (js_sub (currentPage pg) (Fin 1)) (limit pg))
         \<and> limitOpt (mongooseQuery f) = Some (limit pg)"
proof -
  let ?f0 = "search_step (modelName M)
      (new_ApiFeatures (Model_find (case filterObj req of Some c \<Rightarrow> c | None \<Rightarrow> CObj [])) (query req))"
  from assms obtain f1 f2 f3 where
      f1: "limitFields ?f0 = Inr f1"
    and f2: "filter_step qs_parse f1 = Inr f2"
    and f3: "sort_step f2 = Inr f3"
    and f: "f = paginate (js_of_nat (length (collection M))) f3"
    by (auto simp: getAll_features_def getAll_chain_def run_step_def bind_err_def
          Model_countDocuments_all_def Let_def split: sum.splits)
  have q0: "queryString ?f0 = query req"
    by (simp add: search_step_def new_ApiFeatures_def split: option.splits)
  from f1 obtain sel where s1: "f1 = ?f0\<lparr>mongooseQuery := (mongooseQuery ?f0)\<lparr>selectOpt := Some sel\<rparr>\<rparr>"
    by (auto simp: limitFields_def split: if_splits option.splits qval.splits)
  from f2 s1 q0 obtain flt where flt: "filter_conditions (qs_parse (query req)) = Some flt"
    and s2: "f2 = f1\<lparr>mongooseQuery := find_more (cond_of flt) (mongooseQuery f1)\<rparr>"
    by (auto simp: filter_step_def split: option.splits)
  from f3 obtain srt where s3: "f3 = f2\<lparr>mongooseQuery := (mongooseQuery f2)
        \<lparr>collationOpt := Some (''en'', 2), sortOpt := Some (CStr srt)\<rparr>\<rparr>"
    by (auto simp: sort_step_def split: if_splits option.splits qval.splits)
  have "paginationResults f = Some (the (paginationResults f))
      \<and> skipOpt (mongooseQuery f) =
          Some (js_mul (js_sub (currentPage (the (paginationResults f))) (Fin 1))
                  (limit (the (paginationResults f))))
      \<and> limitOpt (mongooseQuery f) = Some (limit (the (paginationResults f)))"
    using f by (simp add: paginate_def Let_def)
  then obtain pg where pg: "paginationResults f = Some pg"
    and sk: "skipOpt (mongooseQuery f) = Some (js_mul (js_sub (currentPage pg) (Fin 1)) (limit pg))"
    and lm: "limitOpt (mongooseQuery f) = Some (limit pg)"
    by blast
  have rest: "conditions (mongooseQuery f) = conditions (mongooseQuery ?f0) @ [cond_of flt]
      \<and> collationOpt (mongooseQuery f) = Some (''en'', 2)
      \<and> sortOpt (mongooseQuery f) = Some (CStr srt)
      \<and> selectOpt (mongooseQuery f) = Some sel"
    using f s1 s2 s3 by (simp add: paginate_def Let_def find_more_def)
  from flt pg sk lm rest show ?thesis by blast
qed



text \<open>
  The claim as stated does not hold for every resource-specific list endpoint. For
  the user 7, with one notification of type 1 and one of type 2, the request
  \<open>type=1&limit=1\<close> lists the one notification of type 1, which is the whole filtered
  set, and reports a total of 2 and 2 pages: the count is taken over the user's
  notifications of every type.
\<close>

theorem notifications_count_counterexample:
  "getNotifications fixture_store
      [[(''user'', 7), (''type'', 1)], [(''user'', 7), (''type'', 2)], [(''user'', 8), (''type'', 1)]]
      ''7'' \<lparr>query = [(''type'', QStr ''1''), (''limit'', QStr ''1'')], filterObj = None\<rparr>
   = ([CallFind \<lparr>conditions = [CObj [(''user'', CStr ''7''), (''type'', CStr ''1'')]],
                 collationOpt = None, sortOpt = Some (CObj [(''createdAt'', CNum (Fin (- 1)))]),
                 selectOpt = None, skipOpt = Some (Fin 0), limitOpt = Some (Fin 1)\<rparr>,
       CallCount (Some (CObj [(''user'', CStr ''7'')])),
       CallCount (Some (CObj [(''user'', CStr ''7''), (''isRead'', CBool False)]))],
      Inr \<lparr>nr_results = 1, nr_totalResults = Fin 2, nr_totalPages = Fin 2, nr_currentPage = Fin 1,
           nr_unreadCount = Fin 0, nr_data = [[(''user'', 7), (''type'', 1)]]\<rparr>)
   \<and> filter (selects fixture_store [CObj [(''user'', CStr ''7''), (''type'', CStr ''1'')]])
        [[(''user'', 7), (''type'', 1)], [(''user'', 7), (''type'', 2)], [(''user'', 8), (''type'', 1)]]
      = [[(''user'', 7), (''type'', 1)]]"
  by code_simp

section \<open>The order of the composition\<close>

text \<open>
  C4, as the code has it. \<open>getAll\<close> applies the steps in the fixed order search,
  projection, filter, sort, pagination. Each step only adds a condition or sets an
  option of the query under construction, so the query that is executed carries the
  caller's filter object, the search condition and the translated filters as its
  conditions, and the store sorts and cuts the page out of the documents that all of
  them select.
\<close>

theorem getAll_composition:
  "getAll_chain = [Search, LimitFields, Filter, Sort, Paginate]
   \<and> (snd (getAll qs_parse S M req) = Inr resp \<longrightarrow>
       (\<exists>flt pg srt sel.
           filter_conditions (qs_parse (query req)) = Some flt
         \<and> pageInfo resp = Some pg
         \<and> data resp =
             map (projects S (Some sel))
               (window S (Some (js_mul (js_sub (currentPage pg) (Fin 1)) (limit pg))) (Some (limit pg))
                 (orders S (Some (''en'', 2)) (Some (CStr srt))
                   (filter (selects S
                      (conditions (mongooseQuery (search_step (modelName M)
                         (new_ApiFeatures (Model_find (case filterObj req of Some c \<Rightarrow> c | None \<Rightarrow> CObj []))
                            (query req)))) @ [cond_of flt]))
                    (collection M))))))"
proof (intro conjI impI)
  show "getAll_chain = [Search, LimitFields, Filter, Sort, Paginate]"
    by (simp add: getAll_chain_def)
next
  assume a: "snd (getAll qs_parse S M req) = Inr resp"
  then obtain f where f: "getAll_features qs_parse M req = Inr f"
    by (auto simp: getAll_def split: sum.splits)
  from a f have resp: "pageInfo resp = paginationResults f
      \<and> data resp = exec_query S (collection M) (mongooseQuery f)"
    by (auto simp: getAll_def Let_def)
  from getAll_features_shape[OF f] obtain flt pg srt sel where
      "filter_conditions (qs_parse (query req)) = Some flt"
      "paginationResults f = Some pg"
      "conditions (mongooseQuery f) =
                conditions (mongooseQuery (search_step (modelName M)
                  (new_ApiFeatures (Model_find (case filterObj req of Some c \<Rightarrow> c | None \<Rightarrow> CObj []))
                     (query req)))) @ [cond_of flt]"
      "collationOpt (mongooseQuery f) = Some (''en'', 2)"
      "sortOpt (mongooseQuery f) = Some (CStr srt)"
      "selectOpt (mongooseQuery f) = Some sel"
      "skipOpt (mongooseQuery f) = Some (js_mul (js_sub (currentPage pg) (Fin 1)) (limit pg))"
      "limitOpt (mongooseQuery f) = Some (limit pg)"
    by blast
  with resp show "\<exists>flt pg srt sel.
           filter_conditions (qs_parse (query req)) = Some flt
         \<and> pageInfo resp = Some pg
         \<and> data resp =
             map (projects S (Some sel))
               (window S (Some (js_mul (js_sub (currentPage pg) (Fin 1)) (limit pg))) (Some (limit pg))
                 (orders S (Some (''en'', 2)) (Some (CStr srt))
                   (filter (selects S
                      (conditions (mongooseQuery (search_step (modelName M)
                         (new_ApiFeatures (Model_find (case filterObj req of Some c \<Rightarrow> c | None \<Rightarrow> CObj []))
                            (query req)))) @ [cond_of flt]))
                    (collection M))))"
    by (auto simp: exec_query_def)
qed

theorem getAll_composition_witness:
  "snd (getAll (\<lambda>q. q) fixture_store priced_model
      \<lparr>query = [(''price'', QObj [(''gte'', QStr ''10'')]), (''page'', QStr ''2''), (''limit'', QStr ''2'')],
       filterObj = Some (CObj [(''price'', CObj [(''$lt'', CNum (Fin 60))])])\<rparr>)
   = Inr \<lparr>results = 1,
          pageInfo = Some \<lparr>currentPage = Fin 2, limit = Fin 2, numberOfPages = Fin 3,
                            nextPage = Some (Fin 3), previousPage = Some (Fin 1)\<rparr>,
          data = [[(''price'', 50)]]\<rparr>
   \<and> filter (selects fixture_store
        [CObj [(''price'', CObj [(''$lt'', CNum (Fin 60))])], CObj [(''price'', CObj [(''$gte'', CStr ''10'')])]])
        (collection priced_model)
     = [[(''price'', 10)], [(''price'', 30)], [(''price'', 50)]]"
proof -
  let ?req = "\<lparr>query = [(''price'', QObj [(''gte'', QStr ''10'')]), (''page'', QStr ''2''), (''limit'', QStr ''2'')],
       filterObj = Some (CObj [(''price'', CObj [(''$lt'', CNum (Fin 60))])])\<rparr>"
  let ?resp = "\<lparr>results = 1,
          pageInfo = Some \<lparr>currentPage = Fin 2, limit = Fin 2, numberOfPages = Fin 3,
                            nextPage = Some (Fin 3), previousPage = Some (Fin 1)\<rparr>,
          data = [[(''price'', 50)]] :: doc list\<rparr>"
  have e: "snd (getAll (\<lambda>q. q) fixture_store priced_model ?req) = Inr ?resp"
    by code_simp
  have sel: "filter (selects fixture_store
        [CObj [(''price'', CObj [(''$lt'', CNum (Fin 60))])], CObj [(''price'', CObj [(''$gte'', CStr ''10'')])]])
        (collection priced_model)
     = [[(''price'', 10)], [(''price'', 30)], [(''price'', 50)]]"
    by code_simp
  note inst = getAll_composition[where qs_parse = "\<lambda>q. q" and S = fixture_store
      and M = priced_model and req = ?req and resp = ?resp]
  from inst e have "\<exists>flt. filter_conditions (query ?req) = Some flt" by blast
  with e sel show ?thesis by simp
qed

text \<open>
  The order the claim lists is not the order of the calls: the search condition is
  added before the translated filters, and the projection is set before the sort.
\<close>

theorem getAll_order_counterexample:
  "getAll_chain \<noteq> [Filter, Search, Sort, LimitFields, Paginate]
   \<and> map_sum id (\<lambda>f. conditions (mongooseQuery f))
        (getAll_features (\<lambda>q. q) priced_model
           \<lparr>query = [(''keyword'', QStr ''sunset''), (''category'', QStr ''photography'')],
            filterObj = None\<rparr>)
     = Inr [CObj [],
            CObj [(''$or'', CArr [CObj [(''name'', CObj [(''$regex'', CStr ''sunset''), (''$options'', CStr ''i'')])]])],
            CObj [(''category'', CStr ''photography'')]]"
  by code_simp

section \<open>Which fields the keyword search matches\<close>

text \<open>
  C7, as the code has it. \<open>searchDocuments\<close> searches exactly the fields its
  controller passes. The query helper's own \<open>search\<close> receives only the model's
  name and chooses the fields itself: \<open>title\<close> and \<open>description\<close> for \<open>Product\<close>,
  \<open>name\<close> for every other model.
\<close>

theorem search_fields_source:
  "(obj_get (query req) ''q'' = Some (QStr s) \<and> js_trim s \<noteq> [] \<longrightarrow>
      (\<exists>qry. fst (searchDocuments S M searchFields req)
               = [CallFind qry,
                  CallCount (Some (CObj [(''$and'',
                     CArr [CObj [(''$or'', CArr (map (\<lambda>field. regex_cond field (CStr s)) searchFields))],
                           baseFilter M])]))]
         \<and> conditions qry
               = [CObj [(''$and'',
                     CArr [CObj [(''$or'', CArr (map (\<lambda>field. regex_cond field (CStr s)) searchFields))],
                           baseFilter M])]]))
   \<and> (obj_get (queryString f) ''keyword'' = Some kw \<and> truthy (Some kw) \<longrightarrow>
       conditions (mongooseQuery (search_step name f))
         = conditions (mongooseQuery f)
           @ [CObj [(''$or'', CArr (map (\<lambda>field. regex_cond field (cond_of kw))
                       (if name = ''Product'' then [''title'', ''description''] else [''name''])))]])"
proof (intro conjI impI)
  assume a: "obj_get (query req) ''q'' = Some (QStr s) \<and> js_trim s \<noteq> []"
  then have "s \<noteq> []" by (auto simp: js_trim_def)
  with a show "\<exists>qry. fst (searchDocuments S M searchFields req)
               = [CallFind qry,
                  CallCount (Some (CObj [(''$and'',
                     CArr [CObj [(''$or'', CArr (map (\<lambda>field. regex_cond field (CStr s)) searchFields))],
                           baseFilter M])]))]
         \<and> conditions qry
               = [CObj [(''$and'',
                     CArr [CObj [(''$or'', CArr (map (\<lambda>field. regex_cond field (CStr s)) searchFields))],
                           baseFilter M])]]"
    by (simp add: searchDocuments_def Let_def truthy_def search_condition_def searchConditions_def
          Model_find_def)
next
  assume "obj_get (queryString f) ''keyword'' = Some kw \<and> truthy (Some kw)"
  then show "conditions (mongooseQuery (search_step name f))
         = conditions (mongooseQuery f)
           @ [CObj [(''$or'', CArr (map (\<lambda>field. regex_cond field (cond_of kw))
                       (if name = ''Product'' then [''title'', ''description''] else [''name''])))]]"
    by (simp add: search_step_def find_more_def search_fields_def)
qed

theorem search_fields_source_witness:
  "fst (searchDocuments fixture_store priced_model [''title'', ''description'', ''tags'']
          \<lparr>query = [(''q'', QStr ''sunset'')], filterObj = None\<rparr>)
   = [CallFind \<lparr>conditions = [CObj [(''$and'', CArr [CObj [(''$or'', CArr
                     [CObj [(''title'', CObj [(''$regex'', CStr ''sunset''), (''$options'', CStr ''i'')])],
                      CObj [(''description'', CObj [(''$regex'', CStr ''sunset''), (''$options'', CStr ''i'')])],
                      CObj [(''tags'', CObj [(''$regex'', CStr ''sunset''), (''$options'', CStr ''i'')])]])],
                   CObj []])]],
                collationOpt = None, sortOpt = Some (CObj [(''createdAt'', CNum (Fin (- 1)))]),
                selectOpt = None, skipOpt = Some (Fin 0), limitOpt = Some (Fin 10)\<rparr>,
      CallCount (Some (CObj [(''$and'', CArr [CObj [(''$or'', CArr
                     [CObj [(''title'', CObj [(''$regex'', CStr ''sunset''), (''$options'', CStr ''i'')])],
                      CObj [(''description'', CObj [(''$regex'', CStr ''sunset''), (''$options'', CStr ''i'')])],
                      CObj [(''tags'', CObj [(''$regex'', CStr ''sunset''), (''$options'', CStr ''i'')])]])],
                   CObj []])]))]
   \<and> conditions (mongooseQuery (search_step ''Product''
        (new_ApiFeatures (Model_find (CObj [])) [(''keyword'', QStr ''sunset'')])))
     = [CObj [],
        CObj [(''$or'', CArr
                     [CObj [(''title'', CObj [(''$regex'', CStr ''sunset''), (''$options'', CStr ''i'')])],
                      CObj [(''description'', CObj [(''$regex'', CStr ''sunset''), (''$options'', CStr ''i'')])]])]]"
proof -
  let ?req = "\<lparr>query = [(''q'', QStr ''sunset'')], filterObj = None\<rparr>"
  let ?f = "new_ApiFeatures (Model_find (CObj [])) [(''keyword'', QStr ''sunset'')]"
  have h1: "obj_get (query ?req) ''q'' = Some (QStr ''sunset'') \<and> js_trim ''sunset'' \<noteq> []"
    by (simp add: obj_get_def js_trim_def is_js_space_def)
  have h2: "obj_get (queryString ?f) ''keyword'' = Some (QStr ''sunset'') \<and> truthy (Some (QStr ''sunset''))"
    by (simp add: obj_get_def new_ApiFeatures_def truthy_def)
  note inst = search_fields_source[where req = ?req and s = "''sunset''" and S = fixture_store
      and M = priced_model and searchFields = "[''title'', ''description'', ''tags'']"
      and f = ?f and kw = "QStr ''sunset''" and name = "''Product''"]
  from inst h1 h2 have
    "conditions (mongooseQuery (search_step ''Product'' ?f))
       = conditions (mongooseQuery ?f)
         @ [CObj [(''$or'', CArr (map (\<lambda>field. regex_cond field (cond_of (QStr ''sunset'')))
                     [''title'', ''description'']))]]"
    by simp
  moreover have "fst (searchDocuments fixture_store priced_model [''title'', ''description'', ''tags''] ?req)
   = [CallFind \<lparr>conditions = [CObj [(''$and'', CArr [CObj [(''$or'', CArr
                     [CObj [(''title'', CObj [(''$regex'', CStr ''sunset''), (''$options'', CStr ''i'')])],
                      CObj [(''description'', CObj [(''$regex'', CStr ''sunset''), (''$options'', CStr ''i'')])],
                      CObj [(''tags'', CObj [(''$regex'', CStr ''sunset''), (''$options'', CStr ''i'')])]])],
                   CObj []])]],
                collationOpt = None, sortOpt = Some (CObj [(''createdAt'', CNum (Fin (- 1)))]),
                selectOpt = None, skipOpt = Some (Fin 0), limitOpt = Some (Fin 10)\<rparr>,
      CallCount (Some (CObj [(''$and'', CArr [CObj [(''$or'', CArr
                     [CObj [(''title'', CObj [(''$regex'', CStr ''sunset''), (''$options'', CStr ''i'')])],
                      CObj [(''description'', CObj [(''$regex'', CStr ''sunset''), (''$options'', CStr ''i'')])],
                      CObj [(''tags'', CObj [(''$regex'', CStr ''sunset''), (''$options'', CStr ''i'')])]])],
                   CObj []])]))]"
    by code_simp
  ultimately show ?thesis
    by (simp add: new_ApiFeatures_def Model_find_def regex_cond_def)
qed

text \<open>
  For the uploads, whose controller configures \<open>title\<close>, \<open>description\<close> and \<open>tags\<close>
  as the fields to search, the keyword of the generic list is matched against \<open>name\<close>
  alone: the helper has decided.
\<close>

theorem search_fields_counterexample:
  "conditions (mongooseQuery (search_step ''Upload''
      (new_ApiFeatures (Model_find (CObj [])) [(''keyword'', QStr ''sunset'')])))
   = [CObj [],
      CObj [(''$or'', CArr [CObj [(''name'', CObj [(''$regex'', CStr ''sunset''), (''$options'', CStr ''i'')])]])]]
   \<and> conditions (mongooseQuery (search_step ''Upload''
      (new_ApiFeatures (Model_find (CObj [])) [(''keyword'', QStr ''sunset'')])))
   \<noteq> [CObj [],
      CObj [(''$or'', CArr (map (\<lambda>field. regex_cond field (CStr ''sunset''))
                            [''title'', ''description'', ''tags'']))]]"
  by code_simp

section \<open>The guard on the search keyword\<close>

lemma searchDocuments_rejects_blank:
  assumes "obj_get (query req) ''q'' = None
           \<or> (\<exists>s. obj_get (query req) ''q'' = Some (QStr s) \<and> js_trim s = [])"
  shows "searchDocuments S M searchFields req = ([], Inl (ApiError ''Search query is required'' 400 None))"
  using assms
  by (auto simp: searchDocuments_def Let_def truthy_def search_query_required_def)

text \<open>
  C9 at the gallery's search endpoint: a query of one space passes the guard, which
  only tests \<open>!query\<close>, and the text search is handed to the store.
\<close>

theorem gallery_search_blank_query:
  "js_trim '' '' = []
   \<and> fst (gallery_searchUploads S Upload \<lparr>query = [(''q'', QStr '' '')], filterObj = None\<rparr>)
     = [CallFind \<lparr>conditions = [CObj [(''$text'', CObj [(''$search'', CStr '' '')]),
                                       (''status'', CStr ''approved'')]],
                  collationOpt = None,
                  sortOpt = Some (CObj [(''score'', CObj [(''$meta'', CStr ''textScore'')])]),
                  selectOpt = Some ''-originalFileUrl'',
                  skipOpt = Some (Fin 0), limitOpt = Some (Fin 20)\<rparr>]
   \<and> (\<exists>r. snd (gallery_searchUploads S Upload \<lparr>query = [(''q'', QStr '' '')], filterObj = None\<rparr>)
            = Inr r)
   \<and> searchDocuments S M searchFields \<lparr>query = [(''q'', QStr '' '')], filterObj = None\<rparr>
     = ([], Inl (ApiError ''Search query is required'' 400 None))"
  by (simp add: gallery_searchUploads_def Upload_searchUploads_def Model_find_def truthy_def
        cond_param_def set_if_def number_simps searchDocuments_def search_query_required_def)

section \<open>The filter translation: serialise, rewrite, parse\<close>

subsection \<open>The regex, character by character\<close>

lemma match_token_iff:
  assumes "\<forall>x\<in>set w. P x"
  shows "(take (length w) cs = w \<and> (case drop (length w) cs of [] \<Rightarrow> True | c # _ \<Rightarrow> \<not> P c))
         = (takeWhile P cs = w)"
proof
  assume a: "take (length w) cs = w \<and> (case drop (length w) cs of [] \<Rightarrow> True | c # _ \<Rightarrow> \<not> P c)"
  then have cs: "cs = w @ drop (length w) cs"
    by (metis append_take_drop_id)
  have "takeWhile P (w @ drop (length w) cs) = w"
    using assms a by (cases "drop (length w) cs") (auto simp: takeWhile_append2)
  with cs show "takeWhile P cs = w" by simp
next
  assume t: "takeWhile P cs = w"
  then have cs: "cs = w @ dropWhile P cs"
    by (metis takeWhile_dropWhile_id)
  then have tk: "take (length w) cs = w"
    by (metis append_eq_conv_conj)
  from cs have dr: "drop (length w) cs = dropWhile P cs"
    by (metis append_eq_conv_conj)
  have "case dropWhile P cs of [] \<Rightarrow> True | c # _ \<Rightarrow> \<not> P c"
  proof (cases "dropWhile P cs")
    case Nil
    then show ?thesis by (simp only: list.case)
  next
    case (Cons a list)
    then have "\<not> P (hd (dropWhile P cs))"
      using hd_dropWhile[of P cs] by simp
    with Cons show ?thesis by simp
  qed
  with tk dr show "take (length w) cs = w \<and> (case drop (length w) cs of [] \<Rightarrow> True | c # _ \<Rightarrow> \<not> P c)"
    by simp
qed

lemma tokens_word: "w \<in> set operator_tokens \<Longrightarrow> \<forall>x\<in>set w. is_word_char x"
  by (auto simp: operator_tokens_def is_word_char_def)

lemma tokens_last_word: "w \<in> set operator_tokens \<Longrightarrow> is_word_char (last w)"
  by (auto simp: operator_tokens_def is_word_char_def)

lemma tokens_nonempty: "w \<in> set operator_tokens \<Longrightarrow> w \<noteq> []"
  by (auto simp: operator_tokens_def)

lemma boundary_after_word:
  "word_boundary True rest = (case rest of [] \<Rightarrow> True | c # _ \<Rightarrow> \<not> is_word_char c)"
  by (simp add: word_boundary_def split: list.splits)

lemma match_here_word:
  "match_here prev cs =
     (if \<not> prev \<and> takeWhile is_word_char cs \<in> set operator_tokens
      then Some (takeWhile is_word_char cs) else None)"
proof -
  let ?c = "\<lambda>w. take (length w) cs = w \<and> word_boundary (is_word_char (last w)) (drop (length w) cs)"
  have cond: "\<And>w. w \<in> set operator_tokens \<Longrightarrow> ?c w = (takeWhile is_word_char cs = w)"
    using match_token_iff[OF tokens_word, of _ cs]
    by (simp add: tokens_last_word boundary_after_word)
  have fnd: "find ?c operator_tokens =
      (if takeWhile is_word_char cs \<in> set operator_tokens then Some (takeWhile is_word_char cs) else None)"
    using cond[of "''gt''"] cond[of "''gte''"] cond[of "''lt''"] cond[of "''lte''"] cond[of "''in''"]
    by (simp add: operator_tokens_def)
  show ?thesis
  proof (cases prev)
    case False
    have "word_boundary False cs \<or> takeWhile is_word_char cs = []"
      by (cases cs) (auto simp: word_boundary_def)
    moreover have "[] \<notin> set operator_tokens" by (simp add: operator_tokens_def)
    ultimately show ?thesis using False fnd
      by (auto simp: match_here_def)
  next
    case True
    have "word_boundary True cs \<Longrightarrow> takeWhile is_word_char cs = []"
      by (cases cs) (auto simp: word_boundary_def)
    moreover have "[] \<notin> set operator_tokens" by (simp add: operator_tokens_def)
    ultimately show ?thesis using True fnd
      by (auto simp: match_here_def)
  qed
qed

declare replace_from.simps(2) [simp del]

lemma replace_prev_word: "replace_from True (c # cs) = c # replace_from (is_word_char c) cs"
  by (simp add: replace_from.simps(2) match_here_word)

lemma replace_word_run:
  "\<forall>x\<in>set w. is_word_char x \<Longrightarrow> replace_from True (w @ rest) = w @ replace_from True rest"
  by (induction w) (simp_all add: replace_prev_word)

lemma takeWhile_stop: "\<not> P d \<Longrightarrow> takeWhile P (xs @ d # ys) = takeWhile P xs"
  by (induction xs) simp_all

lemma replace_match:
  assumes "takeWhile is_word_char (c # cs) \<in> set operator_tokens"
  shows "replace_from False (c # cs) = CHR ''$'' # c # replace_from True cs"
proof -
  let ?w = "takeWhile is_word_char (c # cs)"
  from assms have ne: "?w \<noteq> []" using tokens_nonempty by blast
  have wc: "is_word_char c"
  proof (rule ccontr)
    assume "\<not> is_word_char c"
    then have "?w = []" by simp
    with ne show False by simp
  qed
  then have w: "?w = c # takeWhile is_word_char cs" by simp
  have len: "length ?w = Suc (length (takeWhile is_word_char cs))"
    by (simp only: w length_Cons)
  have dr: "drop (length ?w) (c # cs) = dropWhile is_word_char cs"
    by (simp only: len drop_Suc_Cons dropWhile_eq_drop)
  have lw: "is_word_char (last ?w)" by (rule tokens_last_word[OF assms])
  have m: "match_here False (c # cs) = Some ?w"
    using assms by (simp only: match_here_word) simp
  have "replace_from False (c # cs)
      = ''$'' @ ?w @ replace_from (is_word_char (last ?w)) (drop (length ?w) (c # cs))"
    by (simp only: replace_from.simps(2) m option.case)
  also have "\<dots> = ''$'' @ ?w @ replace_from True (dropWhile is_word_char cs)"
    using lw dr by simp
  also have "\<dots> = CHR ''$'' # c # (takeWhile is_word_char cs @ replace_from True (dropWhile is_word_char cs))"
    by (simp only: w) simp
  also have "takeWhile is_word_char cs @ replace_from True (dropWhile is_word_char cs)
      = replace_from True (takeWhile is_word_char cs @ dropWhile is_word_char cs)"
    by (rule replace_word_run[symmetric]) (auto dest: set_takeWhileD)
  also have "takeWhile is_word_char cs @ dropWhile is_word_char cs = cs" by simp
  finally show ?thesis .
qed

lemma replace_no_match:
  assumes "p \<or> takeWhile is_word_char (c # cs) \<notin> set operator_tokens"
  shows "replace_from p (c # cs) = c # replace_from (is_word_char c) cs"
proof -
  have "match_here p (c # cs) = None"
    using assms by (simp only: match_here_word) auto
  then show ?thesis by (simp only: replace_from.simps(2) option.case)
qed

lemma replace_step:
  "replace_from p (c # cs) =
     (if \<not> p \<and> takeWhile is_word_char (c # cs) \<in> set operator_tokens
      then CHR ''$'' # c # replace_from True cs
      else c # replace_from (is_word_char c) cs)"
proof (cases "\<not> p \<and> takeWhile is_word_char (c # cs) \<in> set operator_tokens")
  case True
  then have "replace_from False (c # cs) = CHR ''$'' # c # replace_from True cs"
    using replace_match by blast
  with True show ?thesis by (simp only: if_True) simp
next
  case False
  then have "replace_from p (c # cs) = c # replace_from (is_word_char c) cs"
    using replace_no_match by blast
  with False show ?thesis by (simp only: if_False)
qed

lemma empty_not_token: "[] \<notin> set operator_tokens"
  by (simp add: operator_tokens_def)

lemma replace_nonword: "\<not> is_word_char d \<Longrightarrow> replace_from p (d # ys) = d # replace_from False ys"
  using replace_no_match[of p d ys] empty_not_token by simp

lemma replace_local:
  "\<not> is_word_char d \<Longrightarrow> replace_from p (xs @ d # ys) = replace_from p xs @ d # replace_from False ys"
proof (induction xs arbitrary: p)
  case Nil
  then show ?case by (simp add: replace_nonword)
next
  case (Cons c xs)
  have tw: "takeWhile is_word_char (c # xs @ d # ys) = takeWhile is_word_char (c # xs)"
    using takeWhile_stop[where P = is_word_char and d = d and xs = "c # xs" and ys = ys] Cons.prems
    by simp
  have a: "replace_from p (c # xs @ d # ys) =
     (if \<not> p \<and> takeWhile is_word_char (c # xs) \<in> set operator_tokens
      then CHR ''$'' # c # replace_from True (xs @ d # ys)
      else c # replace_from (is_word_char c) (xs @ d # ys))"
    by (simp only: replace_step[of p c "xs @ d # ys"] tw)
  have b: "replace_from p (c # xs) =
     (if \<not> p \<and> takeWhile is_word_char (c # xs) \<in> set operator_tokens
      then CHR ''$'' # c # replace_from True xs
      else c # replace_from (is_word_char c) xs)"
    by (rule replace_step)
  show ?case
    by (simp only: append_Cons a b Cons.IH[OF Cons.prems] split: if_splits) simp
qed

subsection \<open>String literals\<close>

lemma nonword_quote [simp]: "\<not> is_word_char dquote" "\<not> is_word_char bslash"
  by (simp_all add: is_word_char_def dquote_def bslash_def)

lemma token_head: "c # w \<in> set operator_tokens \<Longrightarrow> c = CHR ''g'' \<or> c = CHR ''l'' \<or> c = CHR ''i''"
  by (auto simp: operator_tokens_def)

lemma digit_of_hex: "k < 16 \<Longrightarrow> digit_of (hex_digit k) = Some k"
  by (auto simp: digit_of_def hex_digit_def Let_def)

lemma word_hex: "k < 16 \<Longrightarrow> is_word_char (hex_digit k)"
  by (auto simp: is_word_char_def hex_digit_def Let_def)

lemma escape_cases:
  obtains (plain) "json_escape_char c = [c]" "c \<noteq> dquote" "c \<noteq> bslash" "\<not> (of_char c :: nat) < 32"
  | (short) e where "json_escape_char c = [bslash, e]" "unescape_char e = Some c" "e \<noteq> CHR ''u''"
      "e \<noteq> CHR ''g''" "e \<noteq> CHR ''l''" "e \<noteq> CHR ''i''"
  | (unicode) h1 h2 where
      "json_escape_char c = [bslash, CHR ''u'', CHR ''0'', CHR ''0'', h1, h2]"
      "is_digit_in 16 h1" "is_digit_in 16 h2"
      "digits_val 16 [CHR ''0'', CHR ''0'', h1, h2] = (of_char c :: nat)"
      "is_word_char h1" "is_word_char h2"
proof -
  let ?n = "of_char c :: nat"
  consider (a) "c = dquote" | (b) "c = bslash" | (c) "c = CHR 0x08" | (d) "c = CHR 0x0C"
    | (e) "c = CHR 0x0A" | (f) "c = CHR 0x0D" | (g) "c = CHR 0x09"
    | (h) "c \<noteq> dquote" "c \<noteq> bslash" "c \<noteq> CHR 0x08" "c \<noteq> CHR 0x0C" "c \<noteq> CHR 0x0A"
          "c \<noteq> CHR 0x0D" "c \<noteq> CHR 0x09" "?n < 32"
    | (i) "c \<noteq> dquote" "c \<noteq> bslash" "c \<noteq> CHR 0x08" "c \<noteq> CHR 0x0C" "c \<noteq> CHR 0x0A"
          "c \<noteq> CHR 0x0D" "c \<noteq> CHR 0x09" "\<not> ?n < 32"
    by blast
  then show thesis
  proof cases
    case a then show ?thesis
      by (intro short[of dquote]) (simp_all add: json_escape_char_def unescape_char_def dquote_def)
  next
    case b then show ?thesis
      by (intro short[of bslash]) (simp_all add: json_escape_char_def unescape_char_def dquote_def bslash_def)
  next
    case c then show ?thesis
      by (intro short[of "CHR ''b''"]) (simp_all add: json_escape_char_def unescape_char_def dquote_def bslash_def)
  next
    case d then show ?thesis
      by (intro short[of "CHR ''f''"]) (simp_all add: json_escape_char_def unescape_char_def dquote_def bslash_def)
  next
    case e then show ?thesis
      by (intro short[of "CHR ''n''"]) (simp_all add: json_escape_char_def unescape_char_def dquote_def bslash_def)
  next
    case f then show ?thesis
      by (intro short[of "CHR ''r''"]) (simp_all add: json_escape_char_def unescape_char_def dquote_def bslash_def)
  next
    case g then show ?thesis
      by (intro short[of "CHR ''t''"]) (simp_all add: json_escape_char_def unescape_char_def dquote_def bslash_def)
  next
    case h
    have d1: "?n div 16 < 16" and d2: "?n mod 16 < 16" using h(8) by simp_all
    have esc: "json_escape_char c = [bslash, CHR ''u'', CHR ''0'', CHR ''0'',
         hex_digit (?n div 16), hex_digit (?n mod 16)]"
      using h by (simp add: json_escape_char_def)
    have dv: "digits_val 16 [CHR ''0'', CHR ''0'', hex_digit (?n div 16), hex_digit (?n mod 16)] = ?n"
      using digit_of_hex[OF d1] digit_of_hex[OF d2]
      by (simp add: digits_val_def digit_of_def)
    show ?thesis
      using esc dv digit_of_hex[OF d1] digit_of_hex[OF d2] word_hex[OF d1] word_hex[OF d2]
      by (intro unicode[of "hex_digit (?n div 16)" "hex_digit (?n mod 16)"])
         (simp_all add: is_digit_in_def d1 d2)
  next
    case i then show ?thesis
      by (intro plain) (simp_all add: json_escape_char_def)
  qed
qed

lemma escape_nonempty: "json_escape_char c \<noteq> []"
  by (cases c rule: escape_cases) simp_all

lemma json_escape_Cons: "json_escape (c # s) = json_escape_char c @ json_escape s"
  by (simp add: json_escape_def)

lemma lex_dollar: "lex (InString acc) (CHR ''$'' # cs) = lex (InString (CHR ''$'' # acc)) cs"
  by (simp add: dquote_def bslash_def)

lemma lex_string_body:
  "lex (InString acc) (replace_from p (json_escape s) @ dquote # rest)
     = map_option (Cons (TString (rev acc @ rewrite_from p s))) (lex Outside rest)"
proof (induction s arbitrary: p acc)
  case Nil
  show ?case by (simp add: json_escape_def)
next
  case (Cons c s)
  let ?E = "json_escape s"
  show ?case
  proof (cases c rule: escape_cases)
    case plain
    have esc: "json_escape (c # s) = c # ?E" by (simp add: json_escape_Cons plain(1))
    have lx: "\<And>a cs. lex (InString a) (c # cs) = lex (InString (c # a)) cs"
      using plain by simp
    show ?thesis
    proof (cases "\<not> p \<and> takeWhile is_word_char (c # ?E) \<in> set operator_tokens")
      case True
      then have wc: "is_word_char c"
        using empty_not_token by (auto split: if_splits)
      from True have pF: "\<not> p" and tk: "takeWhile is_word_char (c # ?E) \<in> set operator_tokens"
        by blast+
      have r: "replace_from p (c # ?E) = CHR ''$'' # c # replace_from True ?E"
        using replace_match[OF tk] pF by simp
      have w: "rewrite_from p (c # s) = CHR ''$'' # c # rewrite_from True s"
        using True wc by (simp add: esc plain(1) del: takeWhile.simps)
      show ?thesis
        by (simp only: esc r w append_Cons lex_dollar lx Cons.IH) simp
    next
      case False
      have r: "replace_from p (c # ?E) = c # replace_from (is_word_char c) ?E"
        using False replace_no_match[of p c ?E] by blast
      have w: "rewrite_from p (c # s) = c # rewrite_from (is_word_char c) s"
        using False by (simp add: esc plain(1) del: takeWhile.simps)
      show ?thesis
        by (simp only: esc r w append_Cons lx Cons.IH) simp
    qed
  next
    case (short e)
    have esc: "json_escape (c # s) = bslash # e # ?E" by (simp add: json_escape_Cons short(1))
    have nt: "takeWhile is_word_char (e # ?E) \<notin> set operator_tokens"
    proof
      assume a: "takeWhile is_word_char (e # ?E) \<in> set operator_tokens"
      then have "is_word_char e" using empty_not_token by (auto split: if_splits)
      with a have "e # takeWhile is_word_char ?E \<in> set operator_tokens" by simp
      from token_head[OF this] short show False by simp
    qed
    have r: "replace_from p (bslash # e # ?E) = bslash # e # replace_from (is_word_char e) ?E"
      using replace_nonword[of bslash p "e # ?E"] replace_no_match[of False e ?E] nt by simp
    have w: "rewrite_from p (c # s) = c # rewrite_from (is_word_char e) s"
      using empty_not_token by (simp add: esc short(1))
    have lx: "\<And>a cs. lex (InString a) (bslash # e # cs) = lex (InString (c # a)) cs"
      using short by (simp add: dquote_def bslash_def)
    show ?thesis
      by (simp only: esc r w append_Cons lx Cons.IH) simp
  next
    case (unicode h1 h2)
    let ?hs = "[CHR ''0'', CHR ''0'', h1, h2]"
    have esc: "json_escape (c # s) = bslash # CHR ''u'' # ?hs @ ?E"
      by (simp add: json_escape_Cons unicode(1))
    have nt: "takeWhile is_word_char (CHR ''u'' # ?hs @ ?E) \<notin> set operator_tokens"
    proof
      assume a: "takeWhile is_word_char (CHR ''u'' # ?hs @ ?E) \<in> set operator_tokens"
      have "is_word_char (CHR ''u'')" by (simp add: is_word_char_def)
      with a have "CHR ''u'' # takeWhile is_word_char (?hs @ ?E) \<in> set operator_tokens" by simp
      from token_head[OF this] show False by simp
    qed
    have wu: "is_word_char (CHR ''u'')" by (simp add: is_word_char_def)
    have wh: "\<forall>x\<in>set ?hs. is_word_char x"
      using unicode by (simp add: is_word_char_def)
    have "replace_from p (bslash # CHR ''u'' # ?hs @ ?E) = bslash # replace_from False (CHR ''u'' # ?hs @ ?E)"
      by (rule replace_nonword) simp
    also have "replace_from False (CHR ''u'' # ?hs @ ?E) = CHR ''u'' # replace_from True (?hs @ ?E)"
      using replace_no_match[of False "CHR ''u''" "?hs @ ?E"] nt wu by simp
    also have "replace_from True (?hs @ ?E) = ?hs @ replace_from True ?E"
      by (rule replace_word_run[OF wh])
    finally have r: "replace_from p (bslash # CHR ''u'' # ?hs @ ?E)
        = bslash # CHR ''u'' # ?hs @ replace_from True ?E" .
    have w: "rewrite_from p (c # s) = c # rewrite_from True s"
      using empty_not_token unicode(6) by (simp add: esc unicode(1))
    have lx: "\<And>a cs. lex (InString a) (bslash # CHR ''u'' # ?hs @ cs) = lex (InString (c # a)) cs"
      using unicode by (simp add: dquote_def bslash_def is_digit_in_def digit_of_def)
    have "lex (InString acc) (replace_from p (json_escape (c # s)) @ dquote # rest)
        = lex (InString acc) (bslash # CHR ''u'' # ?hs @ (replace_from True ?E @ dquote # rest))"
      using r by (simp add: esc)
    also have "\<dots> = lex (InString (c # acc)) (replace_from True ?E @ dquote # rest)"
      by (rule lx)
    also have "\<dots> = map_option (Cons (TString (rev (c # acc) @ rewrite_from True s))) (lex Outside rest)"
      by (rule Cons.IH)
    finally have fin: "lex (InString acc) (replace_from p (json_escape (c # s)) @ dquote # rest)
        = map_option (Cons (TString (rev (c # acc) @ rewrite_from True s))) (lex Outside rest)" .
    show ?thesis unfolding w using fin by simp
  qed
qed

subsection \<open>From the rewritten text to tokens\<close>

lemma map_option_Cons: "map_option (Cons x) opt = map_option ((@) [x]) opt"
  by (cases opt) simp_all

lemma map_option_append: "map_option ((@) xs) (map_option ((@) ys) opt) = map_option ((@) (xs @ ys)) opt"
  by (cases opt) simp_all

lemma lex_quoted:
  "lex Outside (replace_from p (quote_json s @ rest))
     = map_option (Cons (TString (rewrite_string s))) (lex Outside (replace_from False rest))"
proof -
  have "replace_from p (quote_json s @ rest)
      = dquote # replace_from False (json_escape s @ dquote # rest)"
    by (simp add: quote_json_def replace_nonword)
  also have "replace_from False (json_escape s @ dquote # rest)
      = replace_from False (json_escape s) @ dquote # replace_from False rest"
    by (rule replace_local) simp
  finally show ?thesis
    by (simp add: lex_string_body rewrite_string_def)
qed

lemma lex_punct:
  assumes "punctuation c = Some t"
  shows "lex Outside (replace_from p (c # rest)) = map_option (Cons t) (lex Outside (replace_from False rest))"
proof -
  from assms have c: "c \<in> {CHR ''{'', CHR ''}'', CHR ''['', CHR '']'', CHR '':'', CHR '',''}"
    by (auto simp: punctuation_def split: if_splits)
  then have nw: "\<not> is_word_char c" and nq: "c \<noteq> dquote" and ns: "\<not> is_json_space c"
    by (auto simp: is_word_char_def dquote_def is_json_space_def)
  show ?thesis
    using assms nq ns by (simp add: replace_nonword[OF nw])
qed

lemma lex_join:
  assumes "\<And>x p rest. x \<in> set xs \<Longrightarrow>
     lex Outside (replace_from p (S x @ rest))
       = map_option ((@) (T x)) (lex Outside (replace_from False rest))"
  shows "lex Outside (replace_from False (join_with '','' (map S xs) @ rest))
       = map_option ((@) (join_with [TComma] (map T xs))) (lex Outside (replace_from False rest))"
  using assms
proof (induction xs)
  case Nil
  show ?case by (simp add: option.map_ident)
next
  case (Cons x xs)
  show ?case
  proof (cases xs)
    case Nil
    then show ?thesis using Cons.prems[of x] by simp
  next
    case (Cons y ys)
    have comma: "punctuation (CHR '','') = Some TComma" by (simp add: punctuation_def)
    have ih: "lex Outside (replace_from False (join_with '','' (map S xs) @ rest))
       = map_option ((@) (join_with [TComma] (map T xs))) (lex Outside (replace_from False rest))"
      using Cons.IH Cons.prems by simp
    have "lex Outside (replace_from False (join_with '','' (map S (x # xs)) @ rest))
        = lex Outside (replace_from False (S x @ CHR '','' # (join_with '','' (map S xs) @ rest)))"
      using Cons by simp
    also have "\<dots> = map_option ((@) (T x))
          (lex Outside (replace_from False (CHR '','' # (join_with '','' (map S xs) @ rest))))"
      using Cons.prems[of x] by simp
    also have "\<dots> = map_option ((@) (T x))
          (map_option (Cons TComma)
             (map_option ((@) (join_with [TComma] (map T xs))) (lex Outside (replace_from False rest))))"
      by (simp only: lex_punct[OF comma] ih)
    also have "\<dots> = map_option ((@) (join_with [TComma] (map T (x # xs)))) (lex Outside (replace_from False rest))"
      using Cons by (simp add: map_option_Cons map_option_append)
    finally show ?thesis .
  qed
qed

lemma lex_value:
  "lex Outside (replace_from p (JSON_stringify v @ rest))
     = map_option ((@) (tokens_of (rewrite_val v))) (lex Outside (replace_from False rest))"
proof (induction v arbitrary: p rest)
  case (QStr s)
  show ?case by (simp add: lex_quoted)
next
  case (QArr xs)
  have lb: "punctuation (CHR ''['') = Some TLBrack" and rb: "punctuation (CHR '']'') = Some TRBrack"
    by (simp_all add: punctuation_def)
  have j: "lex Outside (replace_from False (join_with '','' (map JSON_stringify xs) @ CHR '']'' # rest))
     = map_option ((@) (join_with [TComma] (map (\<lambda>x. tokens_of (rewrite_val x)) xs)))
         (lex Outside (replace_from False (CHR '']'' # rest)))"
    by (rule lex_join) (rule QArr.IH)
  have "lex Outside (replace_from p (JSON_stringify (QArr xs) @ rest))
      = lex Outside (replace_from p (CHR ''['' # (join_with '','' (map JSON_stringify xs) @ CHR '']'' # rest)))"
    by simp
  also have "\<dots> = map_option (Cons TLBrack)
       (map_option ((@) (join_with [TComma] (map (\<lambda>x. tokens_of (rewrite_val x)) xs)))
          (map_option (Cons TRBrack) (lex Outside (replace_from False rest))))"
    by (simp only: lex_punct[OF lb] j lex_punct[OF rb])
  also have "\<dots> = map_option ((@) (tokens_of (rewrite_val (QArr xs)))) (lex Outside (replace_from False rest))"
    by (simp add: map_option_Cons map_option_append comp_def)
  finally show ?case .
next
  case (QObj ms)
  let ?S = "\<lambda>(k, v). quote_json k @ '':'' @ JSON_stringify v"
  let ?T = "\<lambda>(k, v). TString (rewrite_string k) # TColon # tokens_of (rewrite_val v)"
  have lb: "punctuation (CHR ''{'') = Some TLBrace" and rb: "punctuation (CHR ''}'') = Some TRBrace"
    and co: "punctuation (CHR '':'') = Some TColon"
    by (simp_all add: punctuation_def)
  have member: "\<And>x p rest. x \<in> set ms \<Longrightarrow>
     lex Outside (replace_from p (?S x @ rest))
       = map_option ((@) (?T x)) (lex Outside (replace_from False rest))"
  proof -
    fix x :: "string \<times> qval" and p rest
    assume x: "x \<in> set ms"
    obtain k v where kv: "x = (k, v)" by (cases x)
    have ih: "\<And>p rest. lex Outside (replace_from p (JSON_stringify v @ rest))
       = map_option ((@) (tokens_of (rewrite_val v))) (lex Outside (replace_from False rest))"
      using QObj.IH[of x v] x kv by simp
    have "lex Outside (replace_from p (?S x @ rest))
        = lex Outside (replace_from p (quote_json k @ CHR '':'' # (JSON_stringify v @ rest)))"
      by (simp add: kv)
    also have "\<dots> = map_option (Cons (TString (rewrite_string k)))
         (map_option (Cons TColon)
            (map_option ((@) (tokens_of (rewrite_val v))) (lex Outside (replace_from False rest))))"
      by (simp only: lex_quoted lex_punct[OF co] ih)
    also have "\<dots> = map_option ((@) (?T x)) (lex Outside (replace_from False rest))"
      by (simp add: kv map_option_Cons map_option_append)
    finally show "lex Outside (replace_from p (?S x @ rest))
       = map_option ((@) (?T x)) (lex Outside (replace_from False rest))" .
  qed
  have j: "lex Outside (replace_from False (join_with '','' (map ?S ms) @ CHR ''}'' # rest))
     = map_option ((@) (join_with [TComma] (map ?T ms)))
         (lex Outside (replace_from False (CHR ''}'' # rest)))"
    by (rule lex_join) (rule member)
  have tk: "tokens_of (rewrite_val (QObj ms)) = TLBrace # join_with [TComma] (map ?T ms) @ [TRBrace]"
    by (simp add: comp_def case_prod_unfold)
  have "lex Outside (replace_from p (JSON_stringify (QObj ms) @ rest))
      = lex Outside (replace_from p (CHR ''{'' # (join_with '','' (map ?S ms) @ CHR ''}'' # rest)))"
    by simp
  also have "\<dots> = map_option (Cons TLBrace)
       (map_option ((@) (join_with [TComma] (map ?T ms)))
          (map_option (Cons TRBrace) (lex Outside (replace_from False rest))))"
    by (simp only: lex_punct[OF lb] j lex_punct[OF rb])
  also have "\<dots> = map_option ((@) (tokens_of (rewrite_val (QObj ms)))) (lex Outside (replace_from False rest))"
    by (simp only: tk) (simp add: map_option_Cons map_option_append)
  finally show ?case .
qed

lemma lex_translated:
  "lex Outside (replace_operators (JSON_stringify v)) = Some (tokens_of (rewrite_val v))"
  using lex_value[of False v "[]"] by (simp add: replace_operators_def)

subsection \<open>From tokens to the object\<close>

lemma step_value:
  "m = MValue \<or> m = MArrStart \<Longrightarrow> parse_step (m, st) (TString s) = deliver (QStr s) st"
  "m = MValue \<or> m = MArrStart \<Longrightarrow> parse_step (m, st) TLBrack = (MArrStart, FArr [] # st)"
  "m = MValue \<or> m = MArrStart \<Longrightarrow> parse_step (m, st) TLBrace = (MObjStart, FObj [] None # st)"
  by (auto simp: parse_step_def start_value_def)

lemma step_array:
  "parse_step (MArrStart, FArr [] # st) TRBrack = deliver (QArr []) st"
  "parse_step (MAfter, FArr its # st) TRBrack = deliver (QArr (rev its)) st"
  "parse_step (MAfter, FArr its # st) TComma = (MValue, FArr its # st)"
  by (simp_all add: parse_step_def close_array_def after_value_def)

lemma step_object:
  "parse_step (MObjStart, FObj [] None # st) TRBrace = deliver (QObj []) st"
  "parse_step (MAfter, FObj acc None # st) TRBrace = deliver (QObj acc) st"
  "parse_step (MAfter, FObj acc None # st) TComma = (MKey, FObj acc None # st)"
  "m = MObjStart \<or> m = MKey \<Longrightarrow> parse_step (m, FObj acc None # st) (TString k) = (MColon, FObj acc (Some k) # st)"
  "parse_step (MColon, st') TColon = (MValue, st')"
  by (auto simp: parse_step_def close_object_def after_value_def read_key_def)

lemma parse_items:
  assumes "\<And>x m st ts. x \<in> set xs \<Longrightarrow> m = MValue \<or> m = MArrStart \<Longrightarrow>
     foldl parse_step (m, st) (tokens_of x @ ts) = foldl parse_step (deliver (rebuild x) st) ts"
    and "xs \<noteq> []" and "m = MValue \<or> m = MArrStart"
  shows "foldl parse_step (m, FArr acc # st) (join_with [TComma] (map tokens_of xs) @ TRBrack # ts)
       = foldl parse_step (deliver (QArr (rev acc @ map rebuild xs)) st) ts"
  using assms
proof (induction xs arbitrary: acc m)
  case Nil
  then show ?case by simp
next
  case (Cons x xs)
  have first: "\<And>ts'. foldl parse_step (m, FArr acc # st) (tokens_of x @ ts')
      = foldl parse_step (MAfter, FArr (rebuild x # acc) # st) ts'"
    using Cons.prems(1)[of x m "FArr acc # st"] Cons.prems(3) by simp
  show ?case
  proof (cases xs)
    case Nil
    then show ?thesis
      using first[of "TRBrack # ts"] by (simp add: step_array)
  next
    case (Cons y ys)
    have ih: "foldl parse_step (MValue, FArr (rebuild x # acc) # st)
          (join_with [TComma] (map tokens_of xs) @ TRBrack # ts)
       = foldl parse_step (deliver (QArr (rev (rebuild x # acc) @ map rebuild xs)) st) ts"
    proof (rule Cons.IH)
      show "\<And>x m st ts. x \<in> set xs \<Longrightarrow> m = MValue \<or> m = MArrStart \<Longrightarrow>
         foldl parse_step (m, st) (tokens_of x @ ts) = foldl parse_step (deliver (rebuild x) st) ts"
        by (rule Cons.prems(1)) simp_all
      show "xs \<noteq> []" using Cons by simp
      show "MValue = MValue \<or> MValue = MArrStart" by simp
    qed
    have "foldl parse_step (m, FArr acc # st) (join_with [TComma] (map tokens_of (x # xs)) @ TRBrack # ts)
        = foldl parse_step (m, FArr acc # st)
            (tokens_of x @ TComma # (join_with [TComma] (map tokens_of xs) @ TRBrack # ts))"
      using Cons by simp
    also have "\<dots> = foldl parse_step (MValue, FArr (rebuild x # acc) # st)
            (join_with [TComma] (map tokens_of xs) @ TRBrack # ts)"
      by (simp only: first) (simp add: step_array)
    also note ih
    finally show ?thesis by simp
  qed
qed

lemma parse_members:
  assumes "\<And>k v m st ts. (k, v) \<in> set ms \<Longrightarrow> m = MValue \<or> m = MArrStart \<Longrightarrow>
     foldl parse_step (m, st) (tokens_of v @ ts) = foldl parse_step (deliver (rebuild v) st) ts"
    and "ms \<noteq> []" and "m = MObjStart \<or> m = MKey"
  shows "foldl parse_step (m, FObj acc None # st)
           (join_with [TComma] (map (\<lambda>(k, v). TString k # TColon # tokens_of v) ms) @ TRBrace # ts)
       = foldl parse_step
           (deliver (QObj (foldl (\<lambda>a (k, v). obj_set k v a) acc (map (\<lambda>(k, v). (k, rebuild v)) ms))) st) ts"
  using assms
proof (induction ms arbitrary: acc m)
  case Nil
  then show ?case by simp
next
  case (Cons x ms)
  obtain k v where kv: "x = (k, v)" by (cases x)
  have first: "\<And>ts'. foldl parse_step (m, FObj acc None # st) (TString k # TColon # tokens_of v @ ts')
      = foldl parse_step (MAfter, FObj (obj_set k (rebuild v) acc) None # st) ts'"
    using Cons.prems(1)[of k v MValue "FObj acc (Some k) # st"] Cons.prems(3) kv
    by (simp add: step_object)
  show ?case
  proof (cases ms)
    case Nil
    then show ?thesis
      using first[of "TRBrace # ts"] by (simp add: kv step_object)
  next
    case (Cons y ys)
    have ih: "foldl parse_step (MKey, FObj (obj_set k (rebuild v) acc) None # st)
          (join_with [TComma] (map (\<lambda>(k, v). TString k # TColon # tokens_of v) ms) @ TRBrace # ts)
       = foldl parse_step
           (deliver (QObj (foldl (\<lambda>a (k, v). obj_set k v a) (obj_set k (rebuild v) acc)
                              (map (\<lambda>(k, v). (k, rebuild v)) ms))) st) ts"
    proof (rule Cons.IH)
      fix k' v' m' st' ts'
      assume a: "(k', v') \<in> set ms" "m' = MValue \<or> m' = MArrStart"
      from a(1) have "(k', v') \<in> set (x # ms)" by simp
      from Cons.prems(1)[OF this a(2)]
      show "foldl parse_step (m', st') (tokens_of v' @ ts') = foldl parse_step (deliver (rebuild v') st') ts'" .
    next
      show "ms \<noteq> []" using Cons by simp
      show "MKey = MObjStart \<or> MKey = MKey" by simp
    qed
    have "foldl parse_step (m, FObj acc None # st)
           (join_with [TComma] (map (\<lambda>(k, v). TString k # TColon # tokens_of v) (x # ms)) @ TRBrace # ts)
        = foldl parse_step (m, FObj acc None # st)
            (TString k # TColon # tokens_of v @ TComma #
              (join_with [TComma] (map (\<lambda>(k, v). TString k # TColon # tokens_of v) ms) @ TRBrace # ts))"
      using Cons by (simp add: kv)
    also have "\<dots> = foldl parse_step (MKey, FObj (obj_set k (rebuild v) acc) None # st)
            (join_with [TComma] (map (\<lambda>(k, v). TString k # TColon # tokens_of v) ms) @ TRBrace # ts)"
      by (simp only: first) (simp add: step_object)
    also note ih
    finally show ?thesis by (simp add: kv)
  qed
qed

lemma parse_value:
  "m = MValue \<or> m = MArrStart \<Longrightarrow>
     foldl parse_step (m, st) (tokens_of v @ ts) = foldl parse_step (deliver (rebuild v) st) ts"
proof (induction v arbitrary: m st ts)
  case (QStr s)
  then show ?case by (auto simp: step_value)
next
  case (QArr xs)
  show ?case
  proof (cases xs)
    case Nil
    then show ?thesis using QArr.prems by (auto simp: step_value step_array)
  next
    case (Cons y ys)
    then have ne: "xs \<noteq> []" by simp
    have "foldl parse_step (m, st) (tokens_of (QArr xs) @ ts)
        = foldl parse_step (MArrStart, FArr [] # st)
            (join_with [TComma] (map tokens_of xs) @ TRBrack # ts)"
      using QArr.prems by (auto simp: step_value)
    also have "\<dots> = foldl parse_step (deliver (QArr (rev [] @ map rebuild xs)) st) ts"
      by (rule parse_items[OF QArr.IH ne]) simp_all
    finally show ?thesis by simp
  qed
next
  case (QObj ms)
  have ih: "\<And>k v m st ts. (k, v) \<in> set ms \<Longrightarrow> m = MValue \<or> m = MArrStart \<Longrightarrow>
     foldl parse_step (m, st) (tokens_of v @ ts) = foldl parse_step (deliver (rebuild v) st) ts"
    using QObj.IH by fastforce
  show ?case
  proof (cases ms)
    case Nil
    then show ?thesis using QObj.prems by (auto simp: step_value step_object)
  next
    case (Cons y ys)
    then have ne: "ms \<noteq> []" by simp
    have "foldl parse_step (m, st) (tokens_of (QObj ms) @ ts)
        = foldl parse_step (MObjStart, FObj [] None # st)
            (join_with [TComma] (map (\<lambda>(k, v). TString k # TColon # tokens_of v) ms) @ TRBrace # ts)"
      using QObj.prems by (auto simp: step_value)
    also have "\<dots> = foldl parse_step
           (deliver (QObj (foldl (\<lambda>a (k, v). obj_set k v a) [] (map (\<lambda>(k, v). (k, rebuild v)) ms))) st) ts"
      by (rule parse_members[OF ih ne]) simp_all
    finally show ?thesis by simp
  qed
qed

lemma parse_tokens_of: "parse_tokens (tokens_of v) = Some (rebuild v)"
  using parse_value[of MValue "[]" v "[]"] by (simp add: parse_tokens_def)

lemma translation_pipeline:
  "JSON_parse (replace_operators (JSON_stringify v)) = Some (rebuild (rewrite_val v))"
  by (simp add: JSON_parse_def lex_translated parse_tokens_of)

subsection \<open>Keys of the translated object\<close>

lemma keys_obj_set: "fst ` set (obj_set k v ms) = insert k (fst ` set ms)"
proof (induction ms)
  case Nil
  show ?case by simp
next
  case (Cons m ms)
  obtain k' v' where m: "m = (k', v')" by (cases m)
  show ?case
  proof (cases "k' = k")
    case True
    then show ?thesis by (simp add: m)
  next
    case False
    then show ?thesis using Cons.IH by (simp add: m insert_commute)
  qed
qed

lemma keys_foldl_obj_set:
  "fst ` set (foldl (\<lambda>a (k, v). obj_set k v a) acc ms) = fst ` set acc \<union> fst ` set ms"
proof (induction ms arbitrary: acc)
  case Nil
  show ?case by simp
next
  case (Cons m ms)
  obtain k v where m: "m = (k, v)" by (cases m)
  have "fst ` set (foldl (\<lambda>a (k, v). obj_set k v a) acc (m # ms))
      = fst ` set (obj_set k v acc) \<union> fst ` set ms"
    using Cons.IH[of "obj_set k v acc"] by (simp add: m)
  also have "\<dots> = fst ` set acc \<union> fst ` set (m # ms)"
    by (simp add: keys_obj_set m)
  finally show ?case .
qed

lemma keys_obj_delete: "fst ` set (obj_delete k obj) = fst ` set obj - {k}"
  by (auto simp: obj_delete_def image_iff)

lemma keys_fold_obj_delete: "fst ` set (fold obj_delete ks obj) = fst ` set obj - set ks"
  by (induction ks arbitrary: obj) (auto simp: keys_obj_delete)

lemma rewrite_no_dollar: "CHR ''$'' \<notin> set (rewrite_from p s) \<Longrightarrow> rewrite_from p s = s"
  by (induction s arbitrary: p) (auto split: if_splits)

lemma filter_conditions_eq:
  "filter_conditions q = Some (rebuild (rewrite_val (QObj (fold obj_delete excludeFields q))))"
  unfolding filter_conditions_def by (rule translation_pipeline)

lemma filter_conditions_keys:
  "\<exists>flt. filter_conditions q = Some (QObj flt)
        \<and> fst ` set flt = rewrite_string ` (fst ` set q - set excludeFields)"
proof -
  let ?ms = "fold obj_delete excludeFields q"
  let ?flt = "foldl (\<lambda>a (k, v). obj_set k v a) []
      (map (\<lambda>(k, v). (k, rebuild v)) (map (\<lambda>(k, v). (rewrite_string k, rewrite_val v)) ?ms))"
  have "filter_conditions q = Some (QObj ?flt)"
    by (simp add: filter_conditions_eq)
  moreover have "fst ` set ?flt = rewrite_string ` (fst ` set ?ms)"
    by (simp only: keys_foldl_obj_set) (force simp: image_iff)
  ultimately show ?thesis
    by (simp only: keys_fold_obj_delete) blast
qed

lemma reserved_no_dollar: "k \<in> set excludeFields \<Longrightarrow> CHR ''$'' \<notin> set k"
  by (auto simp: excludeFields_def)

lemma filter_conditions_no_reserved:
  "\<exists>flt. filter_conditions q = Some (QObj flt) \<and> (\<forall>k\<in>set excludeFields. obj_get flt k = None)"
proof -
  from filter_conditions_keys[of q] obtain flt where
    flt: "filter_conditions q = Some (QObj flt)"
    and keys: "fst ` set flt = rewrite_string ` (fst ` set q - set excludeFields)"
    by blast
  have "\<forall>k\<in>set excludeFields. k \<notin> fst ` set flt"
  proof
    fix k assume k: "k \<in> set excludeFields"
    show "k \<notin> fst ` set flt"
    proof
      assume "k \<in> fst ` set flt"
      with keys obtain k0 where k0: "k0 \<in> fst ` set q - set excludeFields" and eq: "k = rewrite_string k0"
        by blast
      from reserved_no_dollar[OF k] eq have "CHR ''$'' \<notin> set (rewrite_from False k0)"
        by (simp add: rewrite_string_def)
      then have "rewrite_from False k0 = k0" by (rule rewrite_no_dollar)
      with eq have "k = k0" by (simp add: rewrite_string_def)
      with k k0 show False by simp
    qed
  qed
  then have "\<forall>k\<in>set excludeFields. obj_get flt k = None"
    by (simp add: obj_get_def map_of_eq_None_iff)
  with flt show ?thesis by blast
qed







subsection \<open>The rewrite is injective\<close>






subsection \<open>Objects with distinct keys\<close>









subsection \<open>The rewrite, on the JSON text\<close>



section \<open>What the filters contain\<close>

text \<open>
  C5. Whatever the query parameters are, the condition object that \<open>filter\<close> hands to
  \<open>find\<close> has none of the five reserved keys \<open>page\<close>, \<open>sort\<close>, \<open>limit\<close>, \<open>fields\<close>,
  \<open>keyword\<close>; the parameters of the example leave only the category.
\<close>

theorem reserved_keys_not_in_filters:
  "(\<exists>flt f'. filter_conditions (qs_parse (queryString f)) = Some (QObj flt)
       \<and> filter_step qs_parse f = Inr f'
       \<and> conditions (mongooseQuery f') = conditions (mongooseQuery f) @ [cond_of (QObj flt)]
       \<and> (\<forall>k\<in>set excludeFields. obj_get flt k = None))
   \<and> filter_conditions
        [(''page'', QStr ''2''), (''limit'', QStr ''10''), (''sort'', QStr ''-createdAt''),
         (''fields'', QStr ''title''), (''keyword'', QStr ''x''), (''category'', QStr ''photography'')]
      = Some (QObj [(''category'', QStr ''photography'')])"
proof
  from filter_conditions_no_reserved[of "qs_parse (queryString f)"] obtain flt where
    flt: "filter_conditions (qs_parse (queryString f)) = Some (QObj flt)"
    and res: "\<forall>k\<in>set excludeFields. obj_get flt k = None"
    by blast
  let ?f' = "f\<lparr>mongooseQuery := find_more (cond_of (QObj flt)) (mongooseQuery f)\<rparr>"
  have "filter_step qs_parse f = Inr ?f'"
    by (simp add: filter_step_def flt)
  moreover have "conditions (mongooseQuery ?f') = conditions (mongooseQuery f) @ [cond_of (QObj flt)]"
    by (simp add: find_more_def)
  ultimately show "\<exists>flt f'. filter_conditions (qs_parse (queryString f)) = Some (QObj flt)
       \<and> filter_step qs_parse f = Inr f'
       \<and> conditions (mongooseQuery f') = conditions (mongooseQuery f) @ [cond_of (QObj flt)]
       \<and> (\<forall>k\<in>set excludeFields. obj_get flt k = None)"
    using flt res by blast
next
  show "filter_conditions
        [(''page'', QStr ''2''), (''limit'', QStr ''10''), (''sort'', QStr ''-createdAt''),
         (''fields'', QStr ''title''), (''keyword'', QStr ''x''), (''category'', QStr ''photography'')]
      = Some (QObj [(''category'', QStr ''photography'')])"
    by code_simp
qed

theorem reserved_keys_not_in_filters_witness:
  "filter_conditions
      [(''page'', QStr ''3''), (''sort'', QStr ''title''), (''price'', QObj [(''lt'', QStr ''9'')])]
     = Some (QObj [(''price'', QObj [(''$lt'', QStr ''9'')])])
   \<and> obj_get [(''price'', QObj [(''$lt'', QStr ''9'')])] ''page'' = None
   \<and> obj_get [(''price'', QObj [(''$lt'', QStr ''9'')])] ''sort'' = None
   \<and> obj_get [(''price'', QObj [(''$lt'', QStr ''9'')])] ''limit'' = None
   \<and> obj_get [(''price'', QObj [(''$lt'', QStr ''9'')])] ''fields'' = None
   \<and> obj_get [(''price'', QObj [(''$lt'', QStr ''9'')])] ''keyword'' = None"
proof -
  let ?q = "[(''page'', QStr ''3''), (''sort'', QStr ''title''), (''price'', QObj [(''lt'', QStr ''9'')])]"
  let ?f = "new_ApiFeatures (Model_find (CObj [])) ?q"
  have e: "filter_conditions ?q = Some (QObj [(''price'', QObj [(''$lt'', QStr ''9'')])])"
    by code_simp
  have qs: "queryString ?f = ?q" by (simp add: new_ApiFeatures_def)
  from reserved_keys_not_in_filters[of "\<lambda>q. q" ?f] obtain flt where
    "filter_conditions (queryString ?f) = Some (QObj flt)"
    "\<forall>k\<in>set excludeFields. obj_get flt k = None"
    by blast
  with e qs have "\<forall>k\<in>set excludeFields. obj_get [(''price'', QObj [(''$lt'', QStr ''9'')])] k = None"
    by simp
  with e show ?thesis by (simp add: excludeFields_def)
qed





text \<open>
  The claim as stated does not hold for every whole-word occurrence in a string value.
  In the value \<open>a\<close>, line feed, \<open>in\<close> the token \<open>in\<close> is a whole word: on the value
  itself the regex would put the dollar sign. In the JSON text the line feed is
  written \<open>\n\<close>, the token follows the letter \<open>n\<close>, and the value is left as it is.
\<close>

theorem operator_rewrite_counterexample:
  "filter_conditions [(''note'', QStr [CHR ''a'', CHR 0x0A, CHR ''i'', CHR ''n''])]
     = Some (QObj [(''note'', QStr [CHR ''a'', CHR 0x0A, CHR ''i'', CHR ''n''])])
   \<and> \<not> is_word_char (CHR 0x0A)
   \<and> replace_operators [CHR ''a'', CHR 0x0A, CHR ''i'', CHR ''n'']
     = [CHR ''a'', CHR 0x0A, CHR ''$'', CHR ''i'', CHR ''n'']
   \<and> json_escape [CHR ''a'', CHR 0x0A, CHR ''i'', CHR ''n'']
     = [CHR ''a'', bslash, CHR ''n'', CHR ''i'', CHR ''n'']"
  by code_simp

end
